theory Spec2Isabelle
  imports Complex_Main "HOL-Library.Word"
begin

unbundle bit_operations_syntax

section \<open>Data model of fieldembed\_core.pyx\<close>

text \<open>
  The kernel works on C arrays without bounds checks (\<^verbatim>\<open>boundscheck=False\<close>,
  \<^verbatim>\<open>wraparound=False\<close>, \<^verbatim>\<open>cdivision=True\<close>). Every array access of the source is an
  access of the model that names the array and the index; an access outside the array is
  the value \<open>Inl (OutOfBounds a i)\<close>, a modulo by zero is \<open>Inl DivisionByZero\<close>, and
  a Python \<^verbatim>\<open>IndexError\<close> of the driver is \<open>Inl IndexError\<close>. No code of the file
  raises \<open>AssertionError\<close>: it is the outcome of the check that \<open>guarded\<close> below puts in
  front of a kernel.

  \<^verbatim>\<open>REAL_t\<close> (\<^verbatim>\<open>np.float32\<close>) is modelled by \<^typ>\<open>real\<close>: the rounding of single
  precision, its infinities and its NaN are not part of the model. Vocabulary indices (\<^verbatim>\<open>np.uint32_t\<close>) are
  \<^typ>\<open>nat\<close>, C \<^verbatim>\<open>int\<close> variables are \<^typ>\<open>int\<close>, the PRNG state
  (\<^verbatim>\<open>unsigned long long\<close>) is a 64-bit word. An embedding matrix is the list of its
  rows, each \<^verbatim>\<open>size\<close> long; the scratch buffers \<^verbatim>\<open>neu1\<close> and \<^verbatim>\<open>work\<close> are the
  lists of their per-field slices.
\<close>

datatype array_id =
  A_indexes | A_sentence_idx | A_reduced_windows
  | A_cum_table | A_EndIdx | A_LengInv | A_LookUp | A_word_locks
  | A_syn0 | A_syn1neg | A_neu1 | A_work | A_g | A_EXP_TABLE | A_LOG_TABLE

datatype error = OutOfBounds array_id int | DivisionByZero | IndexError | AssertionError

definition MAX_SENTENCE_LEN :: nat where
  "MAX_SENTENCE_LEN = 10000"

definition EXP_TABLE_SIZE :: nat where
  "EXP_TABLE_SIZE = 1000"

definition MAX_EXP :: int where
  "MAX_EXP = 6"

text \<open>Sequencing of fallible steps: the first failing access ends the computation.\<close>

definition bindE :: "error + 'a \<Rightarrow> ('a \<Rightarrow> error + 'b) \<Rightarrow> error + 'b" where
  "bindE m f = (case m of Inl e \<Rightarrow> Inl e | Inr x \<Rightarrow> f x)"

primrec foldE :: "('s \<Rightarrow> 'a \<Rightarrow> error + 's) \<Rightarrow> 's \<Rightarrow> 'a list \<Rightarrow> error + 's" where
  "foldE f s [] = Inr s"
| "foldE f s (x # xs) = bindE (f s x) (\<lambda>s'. foldE f s' xs)"

text \<open>\<^verbatim>\<open>a[i]\<close> on a C array or numpy buffer of known extent.\<close>

definition rd :: "array_id \<Rightarrow> 'a list \<Rightarrow> int \<Rightarrow> error + 'a" where
  "rd a xs i = (if 0 \<le> i \<and> i < int (length xs) then Inr (xs ! nat i) else Inl (OutOfBounds a i))"

definition wr :: "array_id \<Rightarrow> 'a list \<Rightarrow> int \<Rightarrow> 'a \<Rightarrow> error + 'a list" where
  "wr a xs i v = (if 0 \<le> i \<and> i < int (length xs) then Inr (xs[nat i := v]) else Inl (OutOfBounds a i))"

text \<open>\<^verbatim>\<open>range(j, k)\<close> over C ints.\<close>

definition range_int :: "int \<Rightarrow> int \<Rightarrow> int list" where
  "range_int j k = [j..k - 1]"

text \<open>A \<^verbatim>\<open>np.uint32_t\<close> assigned to a C \<^verbatim>\<open>int\<close>.\<close>

definition int_of_uint32 :: "nat \<Rightarrow> int" where
  "int_of_uint32 n = (if n < 2 ^ 31 then int n else int n - 2 ^ 32)"

section \<open>Utilities\<close>

text \<open>
  \<^verbatim>\<open>our_dot_noblas\<close>, \<^verbatim>\<open>our_saxpy_noblas\<close> (with both increments 1, as at every call) and
  the BLAS \<^verbatim>\<open>sscal\<close>, as loops over the first \<open>N\<close> elements.
\<close>

definition our_dot :: "nat \<Rightarrow> real list \<Rightarrow> real list \<Rightarrow> real" where
  "our_dot N X Y = foldl (\<lambda>a i. a + X ! i * Y ! i) 0 [0..<N]"

definition our_saxpy :: "nat \<Rightarrow> real \<Rightarrow> real list \<Rightarrow> real list \<Rightarrow> real list" where
  "our_saxpy N alpha X Y = foldl (\<lambda>Y' i. Y'[i := alpha * X ! i + Y' ! i]) Y [0..<N]"

definition sscal :: "nat \<Rightarrow> real \<Rightarrow> real list \<Rightarrow> real list" where
  "sscal N alpha X = foldl (\<lambda>X' i. X'[i := alpha * X' ! i]) X [0..<N]"

text \<open>
  \<^verbatim>\<open>bisect_left(a, x, lo, hi)\<close>: \<open>mid = (lo + hi) >> 1\<close>; the 64-bit sum does not wrap for
  any array that fits in memory, so the bounds are natural numbers.
\<close>

function bisect_left :: "nat list \<Rightarrow> nat \<Rightarrow> nat \<Rightarrow> nat \<Rightarrow> error + nat" where
  "bisect_left a x lo hi =
     (if hi > lo then
        (let mid = (lo + hi) div 2 in
           if mid < length a then
             (if a ! mid \<ge> x then bisect_left a x lo mid else bisect_left a x (mid + 1) hi)
           else Inl (OutOfBounds A_cum_table (int mid)))
      else Inr lo)"
  by pat_completeness auto
termination
  by (relation "measure (\<lambda>(a, x, lo, hi). hi - lo)") auto

text \<open>
  \<^verbatim>\<open>random_int32\<close>: returns \<open>this_random\<close> and the new \<open>next_random[0]\<close>;
  \<open>281474976710655 = 2^48 - 1\<close>.
\<close>

definition prng_advance :: "64 word \<Rightarrow> 64 word" where
  "prng_advance next_random = (next_random * 25214903917 + 11) AND 281474976710655"

definition random_int32 :: "64 word \<Rightarrow> 64 word \<times> 64 word" where
  "random_int32 next_random =
     (let this_random = drop_bit 16 next_random
      in (this_random, prng_advance next_random))"

text \<open>
  The negative-sampling draw of both kernels (lines 264-265 and 654-655):
  \<^verbatim>\<open>target_index = bisect_left(cum_table, (next_random >> 16) % cum_table[cum_table_len-1], 0, cum_table_len)\<close>
  followed by the advance of \<open>next_random\<close>. Returns the key, the index and the new state.
\<close>

definition neg_draw :: "nat list \<Rightarrow> nat \<Rightarrow> 64 word \<Rightarrow> error + (nat \<times> nat \<times> 64 word)" where
  "neg_draw cum_table cum_table_len next_random =
     bindE (rd A_cum_table cum_table (int cum_table_len - 1)) (\<lambda>total.
       if total = 0 then Inl DivisionByZero
       else
         (let r = unat (drop_bit 16 next_random) mod total in
          bindE (bisect_left cum_table r 0 cum_table_len) (\<lambda>target_index.
            Inr (r, target_index, prng_advance next_random))))"


section \<open>Lookup tables\<close>

text \<open>
  \<^verbatim>\<open>init()\<close>, lines 903-907: for \<open>i\<close> in \<open>range(EXP_TABLE_SIZE)\<close>,
  \<^verbatim>\<open>EXP_TABLE[i] = exp((i / EXP_TABLE_SIZE * 2 - 1) * MAX_EXP)\<close>, then
  \<^verbatim>\<open>EXP_TABLE[i] = EXP_TABLE[i] / (EXP_TABLE[i] + 1)\<close> and
  \<^verbatim>\<open>LOG_TABLE[i] = log(EXP_TABLE[i])\<close>. The module runs \<^verbatim>\<open>init()\<close> when it is loaded,
  so the tables are constants of the model.
\<close>

definition EXP_TABLE :: "real list" where
  "EXP_TABLE =
     map (\<lambda>i. let e = exp ((real i / real EXP_TABLE_SIZE * 2 - 1) * real_of_int MAX_EXP)
             in e / (e + 1)) [0..<EXP_TABLE_SIZE]"

definition LOG_TABLE :: "real list" where
  "LOG_TABLE = map (\<lambda>i. ln (EXP_TABLE ! i)) [0..<EXP_TABLE_SIZE]"

text \<open>The C cast \<^verbatim>\<open><int>\<close> of a floating value truncates towards zero.\<close>

definition c_int_cast :: "real \<Rightarrow> int" where
  "c_int_cast x = (if 0 \<le> x then \<lfloor>x\<rfloor> else \<lceil>x\<rceil>)"

text \<open>
  \<^verbatim>\<open><int>((f_dot + MAX_EXP) * (EXP_TABLE_SIZE / MAX_EXP / 2))\<close>: both \<^verbatim>\<open>DEF\<close> constants are
  integers and the file sets \<^verbatim>\<open>cdivision=True\<close>, so the factor is the integer quotient
  \<open>1000 div 6 div 2 = 83\<close>.
\<close>

definition table_index :: "real \<Rightarrow> int" where
  "table_index f_dot =
     c_int_cast ((f_dot + real_of_int MAX_EXP) * real_of_int (int EXP_TABLE_SIZE div MAX_EXP div 2))"

text \<open>
  \<^verbatim>\<open>f_dot <= -MAX_EXP or f_dot >= MAX_EXP\<close>. On the reals exactly one of this test and
  \<open>-MAX_EXP < f_dot < MAX_EXP\<close> holds; a NaN of the code, which fails both, has no
  counterpart here.
\<close>

definition saturated :: "real \<Rightarrow> bool" where
  "saturated f_dot \<longleftrightarrow> f_dot \<le> - real_of_int MAX_EXP \<or> f_dot \<ge> real_of_int MAX_EXP"

text \<open>The function the tables discretise.\<close>

definition sigmoid :: "real \<Rightarrow> real" where
  "sigmoid x = 1 / (1 + exp (- x))"

section \<open>The per-token update\<close>

text \<open>
  The read-only arguments of a kernel call, named as the fields of \<^verbatim>\<open>Word2VecConfig\<close>
  from which the driver passes them. The \<^verbatim>\<open>std::map\<close>s from field index to array are
  functions from \<^typ>\<open>int\<close>.
\<close>

record Word2VecConfig =
  sg :: int
  negative :: int
  sample :: bool
  cbow_mean :: int
  window :: int
  compute_loss :: int
  use_sub :: int
  use_head :: int
  LookUp_map :: "int \<Rightarrow> nat list"
  EndIdx_map :: "int \<Rightarrow> nat list"
  LengInv_map :: "int \<Rightarrow> real list"
  word_locks :: "real list"
  alpha :: real
  size' :: nat
  cum_table :: "nat list"
  cum_table_len :: nat

text \<open>
  What a kernel call reads and writes through pointers, and the PRNG state it returns:
  the input matrices per field, the output matrix, the two scratch buffers and the
  running loss.
\<close>

record kstate =
  syn0_map :: "int \<Rightarrow> real list list"
  syn1neg :: "real list list"
  neu1 :: "real list list"
  work :: "real list list"
  running_training_loss :: real
  next_random :: "64 word"

text \<open>\<^verbatim>\<open>memset(buf, 0, proj_num * size * sizeof(REAL_t))\<close> on a buffer of slices.\<close>

definition memset_rows :: "array_id \<Rightarrow> int \<Rightarrow> nat \<Rightarrow> real list list \<Rightarrow> error + real list list" where
  "memset_rows a proj_num n buf =
     (if proj_num \<le> int (length buf)
      then Inr (replicate (nat proj_num) (replicate n 0) @ drop (nat proj_num) buf)
      else Inl (OutOfBounds a (int (length buf))))"

text \<open>\<^verbatim>\<open>fld_idx = fld_idx + 1\<close> under \<^verbatim>\<open>if use_...:\<close>\<close>

definition bump :: "int \<Rightarrow> int \<Rightarrow> int" where
  "bump flag fld_idx = (if flag \<noteq> 0 then fld_idx + 1 else fld_idx)"

text \<open>Lines 204-211 and 580-590: the number of context positions and its inverse.\<close>

definition ctx_count :: "int \<Rightarrow> int \<Rightarrow> int \<Rightarrow> real" where
  "ctx_count i j k = foldl (\<lambda>count m. if m = i then count else count + 1) 0 (range_int j k)"

definition inv_count_of :: "real \<Rightarrow> real" where
  "inv_count_of count = (if count > 1 / 2 then 1 / count else 1)"

text \<open>
  Lines 225-235 and 608-619, one context position \<open>m\<close> of the sub field: the reads of
  \<^verbatim>\<open>LengInv\<close> and of both slice bounds, then one \<^verbatim>\<open>our_saxpy\<close> into the slice of
  \<^verbatim>\<open>neu1\<close> for every sub-unit of the slice.
\<close>

definition sub_slice :: "Word2VecConfig \<Rightarrow> int \<Rightarrow> int \<Rightarrow> error + (real \<times> int \<times> int)" where
  "sub_slice c fld_idx left_word =
     bindE (rd A_LengInv (LengInv_map c fld_idx) left_word) (\<lambda>word_lenginv.
     bindE (rd A_EndIdx (EndIdx_map c fld_idx) (left_word - 1)) (\<lambda>gs.
     bindE (rd A_EndIdx (EndIdx_map c fld_idx) left_word) (\<lambda>ge.
       Inr (word_lenginv, int_of_uint32 gs, int_of_uint32 ge))))"

definition sub_gather_token ::
  "Word2VecConfig \<Rightarrow> nat list \<Rightarrow> int \<Rightarrow> real list list \<Rightarrow> real list list \<Rightarrow> int \<Rightarrow> error + real list list" where
  "sub_gather_token c indexes fld_idx syn0 h m =
     bindE (rd A_indexes indexes m) (\<lambda>w.
     bindE (sub_slice c fld_idx (int_of_uint32 w)) (\<lambda>(word_lenginv, gs, ge).
       foldE (\<lambda>h n.
           bindE (rd A_LookUp (LookUp_map c fld_idx) n) (\<lambda>grain_index.
           bindE (rd A_syn0 syn0 (int grain_index)) (\<lambda>x.
           bindE (rd A_neu1 h fld_idx) (\<lambda>y.
             wr A_neu1 h fld_idx (our_saxpy (size' c) word_lenginv x y)))))
         h (range_int gs ge)))"

text \<open>\<^verbatim>\<open>sscal(&size, &inv_count, &buf[fld_idx*size], &ONE)\<close>\<close>

definition scale_slice :: "array_id \<Rightarrow> nat \<Rightarrow> real \<Rightarrow> int \<Rightarrow> real list list \<Rightarrow> error + real list list" where
  "scale_slice a n inv_count fld_idx buf =
     bindE (rd a buf fld_idx) (\<lambda>y. wr a buf fld_idx (sscal n inv_count y))"

text \<open>Lines 219-238 and 599-623: the projection of the sub field.\<close>

definition sub_project ::
  "Word2VecConfig \<Rightarrow> nat list \<Rightarrow> int \<Rightarrow> int \<Rightarrow> int \<Rightarrow> real \<Rightarrow> int \<Rightarrow> kstate \<Rightarrow> error + kstate" where
  "sub_project c indexes i j k inv_count fld_idx st =
     bindE (foldE (\<lambda>h m. if m = i then Inr h
                          else sub_gather_token c indexes fld_idx (syn0_map st fld_idx) h m)
              (neu1 st) (range_int j k)) (\<lambda>h.
     bindE (scale_slice A_neu1 (size' c) inv_count fld_idx h) (\<lambda>h.
       Inr (st\<lparr>neu1 := h\<rparr>)))"

text \<open>Lines 242-252 and 629-641: the projection of the head field.\<close>

definition head_project ::
  "Word2VecConfig \<Rightarrow> nat list \<Rightarrow> int \<Rightarrow> int \<Rightarrow> int \<Rightarrow> real \<Rightarrow> int \<Rightarrow> kstate \<Rightarrow> error + kstate" where
  "head_project c indexes i j k inv_count fld_idx st =
     bindE (foldE (\<lambda>h m. if m = i then Inr h
                          else
                            bindE (rd A_indexes indexes m) (\<lambda>w.
                            bindE (rd A_syn0 (syn0_map st fld_idx) (int w)) (\<lambda>x.
                            bindE (rd A_neu1 h fld_idx) (\<lambda>y.
                              wr A_neu1 h fld_idx (our_saxpy (size' c) 1 x y)))))
              (neu1 st) (range_int j k)) (\<lambda>h.
     bindE (scale_slice A_neu1 (size' c) inv_count fld_idx h) (\<lambda>h.
       Inr (st\<lparr>neu1 := h\<rparr>)))"

text \<open>
  Lines 260-268 and 649-658: the target of step \<open>d\<close>. \<open>None\<close> is the \<^verbatim>\<open>continue\<close> taken
  when the drawn index is the word itself; the PRNG state has advanced by then.
\<close>

definition pick_target ::
  "Word2VecConfig \<Rightarrow> nat \<Rightarrow> int \<Rightarrow> kstate \<Rightarrow> error + ((nat \<times> real) option \<times> kstate)" where
  "pick_target c word_index d st =
     (if d = 0 then Inr (Some (word_index, 1), st)
      else
        bindE (neg_draw (cum_table c) (cum_table_len c) (next_random st)) (\<lambda>(r, target_index, nr).
          if target_index = word_index then Inr (None, st\<lparr>next_random := nr\<rparr>)
          else Inr (Some (target_index, 0), st\<lparr>next_random := nr\<rparr>)))"

text \<open>
  \<^verbatim>\<open>our_saxpy(&size, &g, &syn1neg[row2], &ONE, &work[fld_idx*size], &ONE)\<close> and
  \<^verbatim>\<open>our_saxpy(&size, &g, &neu1[fld_idx*size], &ONE, &syn1neg[row2], &ONE)\<close>
\<close>

definition accumulate_work :: "Word2VecConfig \<Rightarrow> real \<Rightarrow> nat \<Rightarrow> int \<Rightarrow> kstate \<Rightarrow> error + kstate" where
  "accumulate_work c gv target_index fld_idx st =
     bindE (rd A_syn1neg (syn1neg st) (int target_index)) (\<lambda>row.
     bindE (rd A_work (work st) fld_idx) (\<lambda>w.
     bindE (wr A_work (work st) fld_idx (our_saxpy (size' c) gv row w)) (\<lambda>work'.
       Inr (st\<lparr>work := work'\<rparr>))))"

definition update_syn1neg :: "Word2VecConfig \<Rightarrow> real \<Rightarrow> nat \<Rightarrow> int \<Rightarrow> kstate \<Rightarrow> error + kstate" where
  "update_syn1neg c gv target_index fld_idx st =
     bindE (rd A_neu1 (neu1 st) fld_idx) (\<lambda>h.
     bindE (rd A_syn1neg (syn1neg st) (int target_index)) (\<lambda>row.
     bindE (wr A_syn1neg (syn1neg st) (int target_index) (our_saxpy (size' c) gv h row)) (\<lambda>s1.
       Inr (st\<lparr>syn1neg := s1\<rparr>))))"

definition field_dot :: "Word2VecConfig \<Rightarrow> nat \<Rightarrow> int \<Rightarrow> kstate \<Rightarrow> error + real" where
  "field_dot c target_index fld_idx st =
     bindE (rd A_neu1 (neu1 st) fld_idx) (\<lambda>h.
     bindE (rd A_syn1neg (syn1neg st) (int target_index)) (\<lambda>row.
       Inr (our_dot (size' c) h row)))"

text \<open>
  Lines 324-332 and 714-723: with \<^verbatim>\<open>cbow_mean\<close> the slices of \<^verbatim>\<open>work\<close> are scaled by
  \<open>inv_count\<close>.
\<close>

definition scale_work :: "Word2VecConfig \<Rightarrow> real \<Rightarrow> kstate \<Rightarrow> error + kstate" where
  "scale_work c inv_count st =
     (if cbow_mean c \<noteq> 0 then
        bindE (if use_sub c \<noteq> 0
               then scale_slice A_work (size' c) inv_count (bump (use_sub c) (- 1)) (work st)
               else Inr (work st)) (\<lambda>w.
        bindE (if use_head c \<noteq> 0
               then scale_slice A_work (size' c) inv_count
                      (bump (use_head c) (bump (use_sub c) (- 1))) w
               else Inr w) (\<lambda>w.
          Inr (st\<lparr>work := w\<rparr>)))
      else Inr st)"

text \<open>
  Lines 339-351 and 729-746, one context position \<open>m\<close> of the sub-field scatter: the slice
  of \<^verbatim>\<open>work\<close>, weighted by the token's \<^verbatim>\<open>LengInv\<close>, is added to the row of every
  sub-unit of the token.
\<close>

definition sub_scatter_token ::
  "Word2VecConfig \<Rightarrow> nat list \<Rightarrow> int \<Rightarrow> real list list \<Rightarrow> real list list \<Rightarrow> int \<Rightarrow> error + real list list" where
  "sub_scatter_token c indexes fld_idx wk syn0 m =
     bindE (rd A_indexes indexes m) (\<lambda>w.
     bindE (sub_slice c fld_idx (int_of_uint32 w)) (\<lambda>(word_lenginv, gs, ge).
       foldE (\<lambda>syn0 n.
           bindE (rd A_LookUp (LookUp_map c fld_idx) n) (\<lambda>grain_index.
           bindE (rd A_work wk fld_idx) (\<lambda>x.
           bindE (rd A_syn0 syn0 (int grain_index)) (\<lambda>row.
             wr A_syn0 syn0 (int grain_index) (our_saxpy (size' c) word_lenginv x row)))))
         syn0 (range_int gs ge)))"

definition sub_scatter ::
  "Word2VecConfig \<Rightarrow> nat list \<Rightarrow> int \<Rightarrow> int \<Rightarrow> int \<Rightarrow> int \<Rightarrow> kstate \<Rightarrow> error + kstate" where
  "sub_scatter c indexes i j k fld_idx st =
     bindE (foldE (\<lambda>syn0 m. if m = i then Inr syn0
                             else sub_scatter_token c indexes fld_idx (work st) syn0 m)
              (syn0_map st fld_idx) (range_int j k)) (\<lambda>syn0.
       Inr (st\<lparr>syn0_map := (syn0_map st)(fld_idx := syn0)\<rparr>))"

text \<open>Lines 353-359 and 747-753: the scatter of the head field, weighted by the word lock.\<close>

definition head_scatter ::
  "Word2VecConfig \<Rightarrow> nat list \<Rightarrow> int \<Rightarrow> int \<Rightarrow> int \<Rightarrow> int \<Rightarrow> kstate \<Rightarrow> error + kstate" where
  "head_scatter c indexes i j k fld_idx st =
     bindE (foldE (\<lambda>syn0 m. if m = i then Inr syn0
                             else
                               bindE (rd A_indexes indexes m) (\<lambda>w.
                               bindE (rd A_word_locks (word_locks c) (int w)) (\<lambda>lock.
                               bindE (rd A_work (work st) fld_idx) (\<lambda>x.
                               bindE (rd A_syn0 syn0 (int w)) (\<lambda>row.
                                 wr A_syn0 syn0 (int w) (our_saxpy (size' c) lock x row))))))
              (syn0_map st fld_idx) (range_int j k)) (\<lambda>syn0.
       Inr (st\<lparr>syn0_map := (syn0_map st)(fld_idx := syn0)\<rparr>))"

text \<open>
  Lines 192-256 and 553-645, the same text in both variants: the word at the target
  position, the inverse context count, the two projections into \<^verbatim>\<open>neu1\<close> (sub field
  first), and the reset of \<^verbatim>\<open>work\<close>.
\<close>

definition prologue ::
  "Word2VecConfig \<Rightarrow> nat list \<Rightarrow> int \<Rightarrow> int \<Rightarrow> int \<Rightarrow> kstate \<Rightarrow> error + (nat \<times> real \<times> kstate)" where
  "prologue c indexes i j k st =
     (let proj_num = use_head c + use_sub c in
      bindE (rd A_indexes indexes i) (\<lambda>word_index.
      let inv_count = inv_count_of (ctx_count i j k) in
      bindE (memset_rows A_neu1 proj_num (size' c) (neu1 st)) (\<lambda>h.
      bindE (if use_sub c \<noteq> 0
             then sub_project c indexes i j k inv_count (bump (use_sub c) (- 1)) (st\<lparr>neu1 := h\<rparr>)
             else Inr (st\<lparr>neu1 := h\<rparr>)) (\<lambda>st.
      bindE (if use_head c \<noteq> 0
             then head_project c indexes i j k inv_count
                    (bump (use_head c) (bump (use_sub c) (- 1))) st
             else Inr st) (\<lambda>st.
      bindE (memset_rows A_work proj_num (size' c) (work st)) (\<lambda>w.
        Inr (word_index, inv_count, st\<lparr>work := w\<rparr>)))))))"

text \<open>
  Lines 324-362 and 714-756, the same text in both variants: the scaling of \<^verbatim>\<open>work\<close> and
  the scatter into the input matrices, over the positions of \<open>range(j, k)\<close> other than
  the current value of the variable \<open>i\<close>.
\<close>

definition epilogue ::
  "Word2VecConfig \<Rightarrow> nat list \<Rightarrow> int \<Rightarrow> int \<Rightarrow> int \<Rightarrow> real \<Rightarrow> kstate \<Rightarrow> error + kstate" where
  "epilogue c indexes i j k inv_count st =
     bindE (scale_work c inv_count st) (\<lambda>st.
     bindE (if use_sub c \<noteq> 0
            then sub_scatter c indexes i j k (bump (use_sub c) (- 1)) st
            else Inr st) (\<lambda>st.
     bindE (if use_head c \<noteq> 0
            then head_scatter c indexes i j k (bump (use_head c) (bump (use_sub c) (- 1))) st
            else Inr st) Inr))"

subsection \<open>\<^verbatim>\<open>fieldembed_token_neg_0X1_neat\<close>\<close>

text \<open>
  Lines 277-290 (sub field) and 295-309 (head field), the same text for both. The result
  \<open>None\<close> is a \<^verbatim>\<open>continue\<close>: these blocks stand directly in the body of the loop over
  \<open>d\<close>, so it ends the whole step. With \<^verbatim>\<open>_compute_loss == 1\<close> the sign of \<open>f_dot\<close> is
  changed for \<open>d > 0\<close> before the gradient is computed from it.
\<close>

definition neat_field ::
  "Word2VecConfig \<Rightarrow> int \<Rightarrow> real \<Rightarrow> nat \<Rightarrow> int \<Rightarrow> kstate \<Rightarrow> error + (kstate \<times> real option)" where
  "neat_field c d label target_index fld_idx st =
     bindE (field_dot c target_index fld_idx st) (\<lambda>f_dot.
     bindE (if compute_loss c = 1 then
              (let f_dot = (if d = 0 then f_dot else - f_dot) in
               if saturated f_dot then Inr (f_dot, st, True)
               else
                 bindE (rd A_LOG_TABLE LOG_TABLE (table_index f_dot)) (\<lambda>log_e_f_dot.
                   Inr (f_dot,
                        st\<lparr>running_training_loss := running_training_loss st - log_e_f_dot\<rparr>,
                        False)))
            else Inr (f_dot, st, False)) (\<lambda>(f_dot, st, continued).
       if continued then Inr (st, None)
       else if saturated f_dot then Inr (st, None)
       else
         bindE (rd A_EXP_TABLE EXP_TABLE (table_index f_dot)) (\<lambda>f.
         let gv = (label - f) * alpha c in
         bindE (accumulate_work c gv target_index fld_idx st) (\<lambda>st. Inr (st, Some gv)))))"

text \<open>
  One step \<open>d\<close> of lines 258-321. The locals \<open>g\<close> and \<open>g2\<close> live across the steps, so they
  are part of the loop state.
\<close>

definition neat_step ::
  "Word2VecConfig \<Rightarrow> nat \<Rightarrow> kstate \<times> real \<times> real \<Rightarrow> int \<Rightarrow> error + (kstate \<times> real \<times> real)" where
  "neat_step c word_index s d =
     (case s of (st, g, g2) \<Rightarrow>
        bindE (pick_target c word_index d st) (\<lambda>(t, st).
          case t of
            None \<Rightarrow> Inr (st, g, g2)
          | Some (target_index, label) \<Rightarrow>
              bindE (if use_sub c \<noteq> 0
                     then neat_field c d label target_index (bump (use_sub c) (- 1)) st
                     else Inr (st, Some g2)) (\<lambda>(st, r2).
                case r2 of
                  None \<Rightarrow> Inr (st, g, g2)
                | Some g2 \<Rightarrow>
                    bindE (if use_head c \<noteq> 0
                           then neat_field c d label target_index
                                  (bump (use_head c) (bump (use_sub c) (- 1))) st
                           else Inr (st, Some g)) (\<lambda>(st, r).
                      case r of
                        None \<Rightarrow> Inr (st, g, g2)
                      | Some g \<Rightarrow>
                          bindE (if use_sub c \<noteq> 0
                                 then update_syn1neg c g2 target_index (bump (use_sub c) (- 1)) st
                                 else Inr st) (\<lambda>st.
                          bindE (if use_head c \<noteq> 0
                                 then update_syn1neg c g target_index
                                        (bump (use_head c) (bump (use_sub c) (- 1))) st
                                 else Inr st) (\<lambda>st.
                            Inr (st, g, g2)))))))"

text \<open>
  The whole function. \<open>g0\<close> and \<open>g20\<close> are the indeterminate values the locals \<open>g\<close> and
  \<open>g2\<close> have on entry. The returned \<open>next_random\<close> is the field of the result state.
\<close>

definition fieldembed_token_neg_0X1_neat ::
  "real \<Rightarrow> real \<Rightarrow> Word2VecConfig \<Rightarrow> nat list \<Rightarrow> int \<Rightarrow> int \<Rightarrow> int \<Rightarrow> kstate \<Rightarrow> error + kstate" where
  "fieldembed_token_neg_0X1_neat g0 g20 c indexes i j k st =
     bindE (prologue c indexes i j k st) (\<lambda>(word_index, inv_count, st).
     bindE (foldE (neat_step c word_index) (st, g0, g20) (range_int 0 (negative c + 1)))
       (\<lambda>(st, g, g2).
         epilogue c indexes i j k inv_count st))"

subsection \<open>\<^verbatim>\<open>fieldembed_negsamp\<close>\<close>

text \<open>
  Lines 669-682 (sub field) and 687-700 (head field), the same text for both. The flag of
  the result says that the \<^verbatim>\<open>continue\<close> was taken. \<open>g\<close> is the local array
  \<^verbatim>\<open>g[proj_num]\<close>.
\<close>

definition negsamp_field ::
  "Word2VecConfig \<Rightarrow> int \<Rightarrow> real \<Rightarrow> nat \<Rightarrow> int \<Rightarrow> kstate \<times> real list
     \<Rightarrow> error + (kstate \<times> real list \<times> bool)" where
  "negsamp_field c d label target_index fld_idx s =
     (case s of (st, g) \<Rightarrow>
        bindE (field_dot c target_index fld_idx st) (\<lambda>f_dot.
          if saturated f_dot then Inr (st, g, True)
          else
            bindE (rd A_EXP_TABLE EXP_TABLE (table_index f_dot)) (\<lambda>f.
            bindE (wr A_g g fld_idx ((label - f) * alpha c)) (\<lambda>g.
            bindE (if compute_loss c = 1 then
                     (let f_dot = (if d = 0 then f_dot else - f_dot) in
                      bindE (rd A_LOG_TABLE LOG_TABLE (table_index f_dot)) (\<lambda>log_e_f_dot.
                        Inr (st\<lparr>running_training_loss :=
                                   running_training_loss st - log_e_f_dot\<rparr>)))
                   else Inr st) (\<lambda>st.
            bindE (rd A_g g fld_idx) (\<lambda>gv.
            bindE (accumulate_work c gv target_index fld_idx st) (\<lambda>st.
              Inr (st, g, False))))))))"

text \<open>
  One step \<open>d\<close> of lines 647-711. The sub-field block is the body of
  \<^verbatim>\<open>for i in range(use_sub)\<close>: its \<^verbatim>\<open>continue\<close> only ends that inner iteration, and the
  loop variable is the parameter \<open>i\<close> of the function, which keeps the last value the loop
  gave it. The \<^verbatim>\<open>continue\<close> of the head block ends the step. The second phase reads
  \<open>g[fld_idx]\<close> whether or not this step has written it.
\<close>

definition negsamp_step ::
  "Word2VecConfig \<Rightarrow> nat \<Rightarrow> kstate \<times> real list \<times> int \<Rightarrow> int
     \<Rightarrow> error + (kstate \<times> real list \<times> int)" where
  "negsamp_step c word_index s d =
     (case s of (st, g, i) \<Rightarrow>
        bindE (pick_target c word_index d st) (\<lambda>(t, st).
          case t of
            None \<Rightarrow> Inr (st, g, i)
          | Some (target_index, label) \<Rightarrow>
              bindE (if use_sub c \<noteq> 0 then
                       foldE (\<lambda>(st, g, fld_idx, i) i'.
                           bindE (negsamp_field c d label target_index (fld_idx + 1) (st, g))
                             (\<lambda>(st, g, continued). Inr (st, g, fld_idx + 1, i')))
                         (st, g, - 1, i) (range_int 0 (use_sub c))
                     else Inr (st, g, - 1, i)) (\<lambda>(st, g, fld_idx, i).
              bindE (if use_head c \<noteq> 0
                     then negsamp_field c d label target_index (fld_idx + 1) (st, g)
                     else Inr (st, g, False)) (\<lambda>(st, g, continued).
                if continued then Inr (st, g, i)
                else
                  bindE (if use_sub c \<noteq> 0 then
                           bindE (rd A_g g (bump (use_sub c) (- 1))) (\<lambda>gv.
                             update_syn1neg c gv target_index (bump (use_sub c) (- 1)) st)
                         else Inr st) (\<lambda>st.
                  bindE (if use_head c \<noteq> 0 then
                           bindE (rd A_g g (bump (use_head c) (bump (use_sub c) (- 1)))) (\<lambda>gv.
                             update_syn1neg c gv target_index
                               (bump (use_head c) (bump (use_sub c) (- 1))) st)
                         else Inr st) (\<lambda>st.
                    Inr (st, g, i)))))))"

text \<open>
  The whole function. \<open>g0\<close> is the indeterminate content of the local array \<open>g\<close> on entry
  (\<open>proj_num\<close> elements). The epilogue runs with the value the variable \<open>i\<close> has after the
  loop over \<open>d\<close>.
\<close>

definition fieldembed_negsamp ::
  "real list \<Rightarrow> Word2VecConfig \<Rightarrow> nat list \<Rightarrow> int \<Rightarrow> int \<Rightarrow> int \<Rightarrow> kstate \<Rightarrow> error + kstate" where
  "fieldembed_negsamp g0 c indexes i j k st =
     bindE (prologue c indexes i j k st) (\<lambda>(word_index, inv_count, st).
     bindE (foldE (negsamp_step c word_index) (st, g0, i) (range_int 0 (negative c + 1)))
       (\<lambda>(st, g, i').
         epilogue c indexes i' j k inv_count st))"

section \<open>The batch driver\<close>

text \<open>
  \<^verbatim>\<open>train_batch_fieldembed_0X1_neat\<close> and \<^verbatim>\<open>train_batch_fieldembed_negsamp\<close> have the
  same text but for the kernel they call. The packing state holds the two work arrays of
  the struct \<open>c\<close> and the counters; the arrays are C arrays of fixed extent, given with
  the content they have on entry. \<^verbatim>\<open>c.indexes\<close> has \<open>MAX_SENTENCE_LEN\<close> elements (the
  kernels declare it so); the extents of \<^verbatim>\<open>c.sentence_idx\<close> and
  \<^verbatim>\<open>c.reduced_windows\<close> are declared outside this file and are the lengths of the lists
  given.
\<close>

record pstate =
  c_indexes :: "nat list"
  c_sentence_idx :: "int list"
  effective_words :: int
  effective_sentences :: int
  c_next_random :: "64 word"

text \<open>
  Lines 385-395 and 779-790, the loop over the tokens of one sentence. \<open>vlookup\<close> holds
  the \<^verbatim>\<open>sample_int\<close> of every vocabulary entry. The recursion ends early at the
  \<^verbatim>\<open>break\<close>.
\<close>

fun pack_tokens :: "bool \<Rightarrow> nat list \<Rightarrow> nat list \<Rightarrow> pstate \<Rightarrow> error + pstate" where
  "pack_tokens smp vlookup [] ps = Inr ps"
| "pack_tokens smp vlookup (word_vocidx # rest) ps =
     (if word_vocidx \<le> 3 then pack_tokens smp vlookup rest ps
      else
        bindE (if smp then
                 (if word_vocidx < length vlookup then
                    (case random_int32 (c_next_random ps) of
                       (r, nr) \<Rightarrow> Inr (vlookup ! word_vocidx < unat r, ps\<lparr>c_next_random := nr\<rparr>))
                  else Inl IndexError)
               else Inr (False, ps)) (\<lambda>(dropped, ps).
          if dropped then pack_tokens smp vlookup rest ps
          else
            bindE (wr A_indexes (c_indexes ps) (effective_words ps) word_vocidx) (\<lambda>buf.
              let ps = ps\<lparr>c_indexes := buf, effective_words := effective_words ps + 1\<rparr> in
              if effective_words ps = int MAX_SENTENCE_LEN then Inr ps
              else pack_tokens smp vlookup rest ps)))"

text \<open>
  Lines 376-401 and 770-797, the loop over the sentences; the fifth argument is the list
  of the values of \<open>sent_idx\<close> still to come. \<^verbatim>\<open>indexes[idx_start: idx_end]\<close> is a Python
  slice.
\<close>

fun pack_sentences ::
  "bool \<Rightarrow> nat list \<Rightarrow> nat list \<Rightarrow> nat list \<Rightarrow> nat list \<Rightarrow> pstate \<Rightarrow> error + pstate" where
  "pack_sentences smp vlookup indexes sentence_idx [] ps = Inr ps"
| "pack_sentences smp vlookup indexes sentence_idx (sent_idx # rest) ps =
     (let idx_start = (if sent_idx = 0 then 0 else sentence_idx ! (sent_idx - 1));
          idx_end = sentence_idx ! sent_idx
      in
        bindE (pack_tokens smp vlookup (drop idx_start (take idx_end indexes)) ps) (\<lambda>ps.
        bindE (wr A_sentence_idx (c_sentence_idx ps) (effective_sentences ps) (effective_words ps))
          (\<lambda>si.
            let ps = ps\<lparr>c_sentence_idx := si, effective_sentences := effective_sentences ps + 1\<rparr>
            in
              if effective_words ps = int MAX_SENTENCE_LEN then Inr ps
              else pack_sentences smp vlookup indexes sentence_idx rest ps)))"

definition pack_subsampling ::
  "bool \<Rightarrow> nat list \<Rightarrow> nat list \<Rightarrow> nat list \<Rightarrow> pstate \<Rightarrow> error + pstate" where
  "pack_subsampling smp vlookup indexes sentence_idx ps =
     pack_sentences smp vlookup indexes sentence_idx [0..<length sentence_idx] ps"

text \<open>
  Lines 403-410 and 799-807, the mode without subsampling: the counters are the lengths
  of the inputs, and every element is stored at its own position.
\<close>

definition pack_verbatim :: "nat list \<Rightarrow> nat list \<Rightarrow> pstate \<Rightarrow> error + pstate" where
  "pack_verbatim indexes sentence_idx ps =
     bindE (foldE (\<lambda>buf (i, item). wr A_indexes buf (int i) item) (c_indexes ps)
              (zip [0..<length indexes] indexes)) (\<lambda>buf.
     bindE (foldE (\<lambda>buf (i, item). wr A_sentence_idx buf (int i) (int item)) (c_sentence_idx ps)
              (zip [0..<length sentence_idx] sentence_idx)) (\<lambda>si.
       Inr (ps\<lparr>c_indexes := buf, c_sentence_idx := si,
                effective_words := int (length indexes),
                effective_sentences := int (length sentence_idx)\<rparr>)))"

definition pack :: "bool \<Rightarrow> bool \<Rightarrow> nat list \<Rightarrow> nat list \<Rightarrow> nat list \<Rightarrow> pstate \<Rightarrow> error + pstate" where
  "pack subsampling smp vlookup indexes sentence_idx ps =
     (if subsampling then pack_subsampling smp vlookup indexes sentence_idx ps
      else pack_verbatim indexes sentence_idx ps)"

text \<open>Lines 425-454 and 823-853: one target position \<open>i\<close> of a sentence.\<close>

type_synonym kernel =
  "Word2VecConfig \<Rightarrow> nat list \<Rightarrow> int \<Rightarrow> int \<Rightarrow> int \<Rightarrow> kstate \<Rightarrow> error + kstate"

definition train_position ::
  "kernel \<Rightarrow> Word2VecConfig \<Rightarrow> nat list \<Rightarrow> int list \<Rightarrow> int \<Rightarrow> int \<Rightarrow> kstate \<Rightarrow> int
     \<Rightarrow> error + kstate" where
  "train_position kern c indexes reduced_windows idx_start idx_end st i =
     bindE (rd A_reduced_windows reduced_windows i) (\<lambda>r.
       let j = i - window c + r;
           j = (if j < idx_start then idx_start else j);
           k = i + window c + 1 - r;
           k = (if k > idx_end then idx_end else k)
       in
         if sg c = 1 then
           foldE (\<lambda>st j. if j = i then Inr st else kern c indexes i j (j + 1) st)
             st (range_int j k)
         else kern c indexes i j k st)"

text \<open>Lines 417-425 and 815-823: one sentence of the packed buffer.\<close>

definition train_sentence ::
  "kernel \<Rightarrow> Word2VecConfig \<Rightarrow> nat list \<Rightarrow> int list \<Rightarrow> int list \<Rightarrow> kstate \<Rightarrow> int
     \<Rightarrow> error + kstate" where
  "train_sentence kern c indexes sentence_idx reduced_windows st sent_idx =
     bindE (rd A_sentence_idx sentence_idx sent_idx) (\<lambda>idx_end.
     bindE (if sent_idx = 0 then Inr 0 else rd A_sentence_idx sentence_idx (sent_idx - 1))
       (\<lambda>idx_start.
         foldE (train_position kern c indexes reduced_windows idx_start idx_end)
           st (range_int idx_start idx_end)))"

text \<open>
  The whole call, after \<^verbatim>\<open>init_w2v_config\<close> has filled \<open>c\<close>: \<open>ps\<close> and \<open>rw0\<close> are the work
  arrays of \<open>c\<close> as they are on entry, \<open>st\<close> the matrices, buffers, loss and PRNG state of
  the model, and \<open>randint n\<close> is what \<^verbatim>\<open>model.random.randint(0, c.window, n)\<close> returns. The
  result is the returned \<open>effective_words\<close> with the state left behind.
\<close>

definition train_batch ::
  "kernel \<Rightarrow> Word2VecConfig \<Rightarrow> nat list \<Rightarrow> (int \<Rightarrow> int list) \<Rightarrow> pstate \<Rightarrow> int list
     \<Rightarrow> nat list \<Rightarrow> nat list \<Rightarrow> bool \<Rightarrow> kstate \<Rightarrow> error + (int \<times> kstate)" where
  "train_batch kern c vlookup randint ps rw0 indexes sentence_idx subsampling st =
     bindE (pack subsampling (sample c) vlookup indexes sentence_idx
              (ps\<lparr>effective_words := 0, effective_sentences := 0,
                  c_next_random := next_random st\<rparr>)) (\<lambda>ps.
     bindE (foldE (\<lambda>buf (i, item). wr A_reduced_windows buf (int i) item) rw0
              (let items = randint (effective_words ps) in zip [0..<length items] items))
       (\<lambda>reduced_windows.
     bindE (foldE (train_sentence kern c (c_indexes ps) (c_sentence_idx ps) reduced_windows)
              (st\<lparr>next_random := c_next_random ps\<rparr>)
              (range_int 0 (effective_sentences ps))) (\<lambda>st.
       Inr (effective_words ps, st))))"

definition train_batch_fieldembed_0X1_neat ::
  "real \<Rightarrow> real \<Rightarrow> Word2VecConfig \<Rightarrow> nat list \<Rightarrow> (int \<Rightarrow> int list) \<Rightarrow> pstate \<Rightarrow> int list
     \<Rightarrow> nat list \<Rightarrow> nat list \<Rightarrow> bool \<Rightarrow> kstate \<Rightarrow> error + (int \<times> kstate)" where
  "train_batch_fieldembed_0X1_neat g0 g20 = train_batch (fieldembed_token_neg_0X1_neat g0 g20)"

definition train_batch_fieldembed_negsamp ::
  "real list \<Rightarrow> Word2VecConfig \<Rightarrow> nat list \<Rightarrow> (int \<Rightarrow> int list) \<Rightarrow> pstate \<Rightarrow> int list
     \<Rightarrow> nat list \<Rightarrow> nat list \<Rightarrow> bool \<Rightarrow> kstate \<Rightarrow> error + (int \<times> kstate)" where
  "train_batch_fieldembed_negsamp g0 = train_batch (fieldembed_negsamp g0)"

section \<open>Properties of the calls a batch makes\<close>

text \<open>The tokens the training loop can reach: the packed prefix of \<^verbatim>\<open>c.indexes\<close>.\<close>

definition packed_tokens :: "pstate \<Rightarrow> nat list" where
  "packed_tokens ps = take (nat (effective_words ps)) (c_indexes ps)"

text \<open>
  A kernel call \<open>(i, j, k)\<close> takes its target from position \<open>i\<close> and its context from the
  positions of \<open>range(j, k)\<close>. The call is free of reserved tokens when all these
  positions lie in the buffer and hold a vocabulary index above 3.
\<close>

definition reserved_free :: "nat list \<Rightarrow> int \<Rightarrow> int \<Rightarrow> int \<Rightarrow> bool" where
  "reserved_free indexes i j k \<longleftrightarrow>
     (\<forall>m \<in> set (i # range_int j k). 0 \<le> m \<and> m < int (length indexes) \<and> 3 < indexes ! nat m)"

text \<open>A kernel behind the assertion that its call is free of reserved tokens.\<close>

definition guarded :: "kernel \<Rightarrow> kernel" where
  "guarded kern c indexes i j k st =
     (if reserved_free indexes i j k then kern c indexes i j k st else Inl AssertionError)"

text \<open>A kernel that does nothing, to observe the calls alone.\<close>

definition idle_kernel :: kernel where
  "idle_kernel c indexes i j k st = Inr st"

text \<open>
  The invariant of the packing loops: the counters are not negative, the packed prefix
  lies in the buffer and holds no reserved token, and every recorded sentence end is a
  position of that prefix.
\<close>

definition packed_inv :: "pstate \<Rightarrow> bool" where
  "packed_inv ps \<longleftrightarrow>
     0 \<le> effective_words ps \<and> nat (effective_words ps) \<le> length (c_indexes ps) \<and>
     (\<forall>m < nat (effective_words ps). 3 < c_indexes ps ! m) \<and>
     0 \<le> effective_sentences ps \<and>
     (\<forall>s < nat (effective_sentences ps).
        s < length (c_sentence_idx ps) \<and> 0 \<le> c_sentence_idx ps ! s \<and>
        c_sentence_idx ps ! s \<le> effective_words ps)"

text \<open>
  The rows a call may write in the input matrices: the context tokens, at the positions
  of \<open>range(j, k)\<close> other than \<open>i\<close>, and the sub-units of their slices.
\<close>

definition context_positions :: "int \<Rightarrow> int \<Rightarrow> int \<Rightarrow> int list" where
  "context_positions i j k = filter (\<lambda>m. m \<noteq> i) (range_int j k)"

definition context_tokens :: "nat list \<Rightarrow> int \<Rightarrow> int \<Rightarrow> int \<Rightarrow> nat list" where
  "context_tokens indexes i j k = map (\<lambda>m. indexes ! nat m) (context_positions i j k)"

definition sub_units :: "Word2VecConfig \<Rightarrow> int \<Rightarrow> nat \<Rightarrow> nat list" where
  "sub_units c fld_idx w =
     map (\<lambda>n. LookUp_map c fld_idx ! nat n)
       (range_int (int_of_uint32 (EndIdx_map c fld_idx ! nat (int_of_uint32 w - 1)))
                  (int_of_uint32 (EndIdx_map c fld_idx ! nat (int_of_uint32 w))))"

definition touched_rows :: "Word2VecConfig \<Rightarrow> nat list \<Rightarrow> int \<Rightarrow> int \<Rightarrow> int \<Rightarrow> nat set" where
  "touched_rows c indexes i j k =
     set (context_tokens indexes i j k) \<union>
     (\<Union>w \<in> set (context_tokens indexes i j k). set (sub_units c (bump (use_sub c) (- 1)) w))"

text \<open>
  What the loop over \<open>d\<close> never writes: the projections, the input matrices, and (but for
  the draws) the PRNG state.
\<close>

definition same_frame :: "kstate \<Rightarrow> kstate \<Rightarrow> bool" where
  "same_frame st st' \<longleftrightarrow>
     neu1 st' = neu1 st \<and> next_random st' = next_random st \<and> syn0_map st' = syn0_map st"

section \<open>Concrete inputs\<close>

text \<open>
  A vocabulary of six entries (indices 0-3 reserved, words 4 and 5), vectors of dimension
  1, one sub field and the head field, CBOW-style windows, no negative samples. Word 4 has
  the single sub-unit 0 and word 5 the single sub-unit 1.
\<close>

definition demo_config :: Word2VecConfig where
  "demo_config =
     \<lparr>sg = 0, negative = 0, sample = False, cbow_mean = 1, window = 1, compute_loss = 0,
      use_sub = 1, use_head = 1,
      LookUp_map = (\<lambda>_. [0, 1]), EndIdx_map = (\<lambda>_. [0, 0, 0, 0, 1, 2]),
      LengInv_map = (\<lambda>_. [0, 0, 0, 0, 1, 1]), word_locks = [1, 1, 1, 1, 1, 1],
      alpha = 1, size' = 1, cum_table = [0, 0, 0, 0, 1, 2], cum_table_len = 6\<rparr>"

text \<open>
  Field 0 is the sub-unit matrix (two rows), field 1 the head matrix (six rows). In
  \<open>demo_state\<close> the row of sub-unit 0 is \<open>[1]\<close>; in \<open>demo_state_saturating\<close> it is \<open>[6]\<close>,
  which makes the dot product of the sub field with the output row of word 5 equal to
  \<open>MAX_EXP\<close>.
\<close>

definition demo_state :: kstate where
  "demo_state =
     \<lparr>syn0_map = (\<lambda>f. if f = 0 then [[1], [0]] else [[0], [0], [0], [0], [1], [0]]),
      syn1neg = [[0], [0], [0], [0], [0], [1]],
      neu1 = [[0], [0]], work = [[0], [0]], running_training_loss = 0, next_random = 1\<rparr>"

definition demo_state_saturating :: kstate where
  "demo_state_saturating =
     \<lparr>syn0_map = (\<lambda>f. if f = 0 then [[6], [0]] else [[0], [0], [0], [0], [1], [0]]),
      syn1neg = [[0], [0], [0], [0], [0], [1]],
      neu1 = [[0], [0]], work = [[0], [0]], running_training_loss = 0, next_random = 1\<rparr>"

text \<open>
  In \<open>demo_state_head_saturating\<close> it is the head row of word 4 that is \<open>[6]\<close>: the head
  field saturates against the output row of word 5 and the sub field does not.
\<close>

definition demo_state_head_saturating :: kstate where
  "demo_state_head_saturating =
     \<lparr>syn0_map = (\<lambda>f. if f = 0 then [[1], [0]] else [[0], [0], [0], [0], [6], [0]]),
      syn1neg = [[0], [0], [0], [0], [0], [1]],
      neu1 = [[0], [0]], work = [[0], [0]], running_training_loss = 0, next_random = 1\<rparr>"

text \<open>The work arrays of the struct \<open>c\<close> on entry, here filled with zeros.\<close>

definition demo_buffers :: pstate where
  "demo_buffers =
     \<lparr>c_indexes = replicate MAX_SENTENCE_LEN 0,
      c_sentence_idx = replicate (MAX_SENTENCE_LEN + 1) 0,
      effective_words = 0, effective_sentences = 0, c_next_random = 0\<rparr>"

definition demo_reduced_windows :: "int list" where
  "demo_reduced_windows = replicate MAX_SENTENCE_LEN 0"

text \<open>A generator of window offsets that always answers with zeros.\<close>

definition demo_randint :: "int \<Rightarrow> int list" where
  "demo_randint n = replicate (nat n) 0"

section \<open>Basic facts\<close>

lemma bindE_Inr [simp]: "bindE (Inr x) f = f x"
  by (simp add: bindE_def)

lemma bindE_Inl [simp]: "bindE (Inl e) f = Inl e"
  by (simp add: bindE_def)

lemma bindE_eq_Inr: "bindE m f = Inr y \<longleftrightarrow> (\<exists>x. m = Inr x \<and> f x = Inr y)"
  by (cases m) simp_all

lemma rd_Inr: "0 \<le> i \<Longrightarrow> i < int (length xs) \<Longrightarrow> rd a xs i = Inr (xs ! nat i)"
  by (simp add: rd_def)

lemma rd_Inl: "i < 0 \<or> int (length xs) \<le> i \<Longrightarrow> rd a xs i = Inl (OutOfBounds a i)"
  by (auto simp: rd_def)

section \<open>The negative-sampling draw\<close>

text \<open>
  The loop invariant of the binary search: everything left of \<open>lo\<close> is below the key,
  everything from \<open>hi\<close> on is at least the key.
\<close>

lemma bisect_left_inv:
  "sorted a \<Longrightarrow> lo \<le> hi \<Longrightarrow> hi \<le> length a \<Longrightarrow> (\<forall>i<lo. a ! i < x) \<Longrightarrow>
   (\<forall>i. hi \<le> i \<and> i < length a \<longrightarrow> x \<le> a ! i) \<Longrightarrow>
   \<exists>idx. bisect_left a x lo hi = Inr idx \<and> lo \<le> idx \<and> idx \<le> hi \<and>
     (\<forall>i<idx. a ! i < x) \<and> (\<forall>i. idx \<le> i \<and> i < length a \<longrightarrow> x \<le> a ! i)"
proof (induction a x lo hi rule: bisect_left.induct)
  case (1 a x lo hi)
  show ?case
  proof (cases "lo < hi")
    case False
    with "1.prems" have "lo = hi" by simp
    with "1.prems" show ?thesis by auto
  next
    case True
    define mid where "mid = (lo + hi) div 2"
    have mid: "lo \<le> mid" "mid < hi" "mid < length a"
      using True "1.prems" by (auto simp: mid_def)
    show ?thesis
    proof (cases "x \<le> a ! mid")
      case ge: True
      have up: "\<forall>i. mid \<le> i \<and> i < length a \<longrightarrow> x \<le> a ! i"
      proof (intro allI impI)
        fix i assume "mid \<le> i \<and> i < length a"
        then have "a ! mid \<le> a ! i" using "1.prems"(1) by (simp add: sorted_nth_mono)
        with ge show "x \<le> a ! i" by simp
      qed
      have "\<exists>idx. bisect_left a x lo mid = Inr idx \<and> lo \<le> idx \<and> idx \<le> mid \<and>
          (\<forall>i<idx. a ! i < x) \<and> (\<forall>i. idx \<le> i \<and> i < length a \<longrightarrow> x \<le> a ! i)"
        using "1.IH"(1) [OF True mid_def mid(3) ge "1.prems"(1) mid(1)] mid "1.prems" up
        by simp
      moreover have "bisect_left a x lo hi = bisect_left a x lo mid"
        using True mid ge by (subst bisect_left.simps) (simp add: mid_def Let_def)
      ultimately show ?thesis using mid by auto
    next
      case lt: False
      have low: "\<forall>i<mid + 1. a ! i < x"
      proof (intro allI impI)
        fix i assume "i < mid + 1"
        then have "a ! i \<le> a ! mid" using "1.prems"(1) mid by (simp add: sorted_nth_mono)
        with lt show "a ! i < x" by simp
      qed
      have "\<exists>idx. bisect_left a x (mid + 1) hi = Inr idx \<and> mid + 1 \<le> idx \<and> idx \<le> hi \<and>
          (\<forall>i<idx. a ! i < x) \<and> (\<forall>i. idx \<le> i \<and> i < length a \<longrightarrow> x \<le> a ! i)"
        using "1.IH"(2) [OF True mid_def mid(3) lt "1.prems"(1)] mid "1.prems" low
        by simp
      moreover have "bisect_left a x lo hi = bisect_left a x (mid + 1) hi"
        using True mid lt by (subst bisect_left.simps) (simp add: mid_def Let_def)
      ultimately show ?thesis using mid by auto
    qed
  qed
qed

text \<open>
  Claim C5, as the code has it. For a non-decreasing, non-empty cumulative table and a key
  \<open>r\<close> below its last entry, \<open>bisect_left(table, r, 0, N)\<close> returns the smallest index whose
  entry is at least \<open>r\<close>. For \<open>r = 0\<close> that index is \<open>0\<close>, whatever the width of the first
  bucket. For \<open>r = c\<^sub>N\<^sub>-\<^sub>1 - 1\<close> it is \<open>N - 1\<close> exactly when all earlier entries are
  below \<open>c\<^sub>N\<^sub>-\<^sub>1 - 1\<close>.
\<close>

theorem bisect_left_lower_bound:
  assumes "sorted a" and "a \<noteq> []" and "r < last a"
  shows "\<exists>idx. bisect_left a r 0 (length a) = Inr idx \<and> idx < length a \<and> r \<le> a ! idx \<and>
           (\<forall>i<idx. a ! i < r) \<and>
           (r = 0 \<longrightarrow> idx = 0) \<and>
           (r = last a - 1 \<longrightarrow>
              (idx = length a - 1 \<longleftrightarrow> (\<forall>i<length a - 1. a ! i < last a - 1)))"
proof -
  obtain idx where run: "bisect_left a r 0 (length a) = Inr idx"
    and "idx \<le> length a"
    and below: "\<forall>i<idx. a ! i < r"
    and above: "\<forall>i. idx \<le> i \<and> i < length a \<longrightarrow> r \<le> a ! i"
    using bisect_left_inv [of a 0 "length a" r] assms(1) by auto
  have last: "a ! (length a - 1) = last a"
    using assms(2) by (simp add: last_conv_nth)
  have lt: "idx < length a"
  proof (rule ccontr)
    assume "\<not> idx < length a"
    with \<open>idx \<le> length a\<close> have "idx = length a" by simp
    with below assms(2) have "a ! (length a - 1) < r" by simp
    with last assms(3) show False by simp
  qed
  have zero: "idx = 0" if "r = 0"
  proof (rule ccontr)
    assume "idx \<noteq> 0"
    then have "a ! 0 < r" using below by simp
    with that show False by simp
  qed
  have top: "idx = length a - 1 \<longleftrightarrow> (\<forall>i<length a - 1. a ! i < last a - 1)"
    if r: "r = last a - 1"
  proof
    assume "idx = length a - 1"
    with below r show "\<forall>i<length a - 1. a ! i < last a - 1" by simp
  next
    assume all: "\<forall>i<length a - 1. a ! i < last a - 1"
    show "idx = length a - 1"
    proof (rule ccontr)
      assume "idx \<noteq> length a - 1"
      with lt have "idx < length a - 1" by simp
      with all have "a ! idx < last a - 1" by simp
      moreover have "r \<le> a ! idx" using above lt by simp
      ultimately show False using r by simp
    qed
  qed
  show ?thesis
    using run lt above below zero top by auto
qed

theorem bisect_left_lower_bound_witness:
  "\<exists>idx. bisect_left [1, 2, 3] 2 0 (length [1, 2, 3 :: nat]) = Inr idx \<and> idx < 3 \<and>
     2 \<le> [1, 2, 3 :: nat] ! idx \<and> (\<forall>i<idx. [1, 2, 3 :: nat] ! i < 2)"
  using bisect_left_lower_bound [of "[1, 2, 3]" 2] by simp

text \<open>
  Claim C5 as the specification states it fails in both of its special cases. In the
  table \<open>[1, 2, 3]\<close> the key \<open>r = c\<^sub>N\<^sub>-\<^sub>1 - 1 = 2\<close> gives index \<open>1\<close>, not \<open>N - 1 = 2\<close>. In
  the table \<open>[0, 5]\<close> the key \<open>0\<close> gives index \<open>0\<close>, a bucket of width zero, while the first
  bucket of nonzero width is bucket \<open>1\<close>.
\<close>

theorem bisect_left_spec_counterexample:
  "sorted [1, 2, 3 :: nat] \<and> (2 :: nat) < last [1, 2, 3] \<and> (2 :: nat) = last [1, 2, 3] - 1 \<and>
   bisect_left [1, 2, 3] 2 0 (length [1, 2, 3 :: nat]) = Inr 1 \<and>
   (1 :: nat) \<noteq> length [1, 2, 3 :: nat] - 1 \<and>
   sorted [0, 5 :: nat] \<and> (0 :: nat) < last [0, 5] \<and>
   bisect_left [0, 5] 0 0 (length [0, 5 :: nat]) = Inr 0 \<and> [0, 5 :: nat] ! 0 = 0"
  by (simp add: Let_def)

section \<open>The random number generator\<close>



lemma neg_draw_Inr:
  "neg_draw tbl n s = Inr (r, t, s') \<Longrightarrow>
   s' = prng_advance s \<and> r = unat (drop_bit 16 s) mod tbl ! nat (int n - 1)"
  by (auto simp: neg_draw_def rd_def bindE_eq_Inr Let_def split: if_splits)



section \<open>Evaluation of concrete calls\<close>

lemma range_int_step: "j < k \<Longrightarrow> range_int j k = j # range_int (j + 1) k"
  by (simp add: range_int_def upto_rec1)

lemma range_int_empty: "k \<le> j \<Longrightarrow> range_int j k = []"
  by (simp add: range_int_def)

lemma replicate_2: "replicate 2 x = [x, x]"
  by (simp add: numeral_2_eq_2)

lemma length_EXP_TABLE: "length EXP_TABLE = 1000"
  by (simp add: EXP_TABLE_def EXP_TABLE_SIZE_def)

lemma length_LOG_TABLE: "length LOG_TABLE = 1000"
  by (simp add: LOG_TABLE_def EXP_TABLE_SIZE_def)

lemmas kernel_defs =
  fieldembed_token_neg_0X1_neat_def fieldembed_negsamp_def prologue_def epilogue_def
  neat_step_def neat_field_def negsamp_step_def negsamp_field_def
  sub_project_def head_project_def sub_gather_token_def sub_slice_def scale_slice_def
  scale_work_def sub_scatter_def sub_scatter_token_def head_scatter_def
  pick_target_def accumulate_work_def update_syn1neg_def field_dot_def
  memset_rows_def bump_def ctx_count_def inv_count_of_def
  rd_def wr_def int_of_uint32_def our_dot_def our_saxpy_def sscal_def
  saturated_def table_index_def c_int_cast_def MAX_EXP_def EXP_TABLE_SIZE_def
  length_EXP_TABLE length_LOG_TABLE Let_def replicate_2 range_int_step range_int_empty

lemmas driver_defs =
  train_batch_fieldembed_0X1_neat_def train_batch_fieldembed_negsamp_def train_batch_def
  train_sentence_def train_position_def pack_def pack_verbatim_def pack_subsampling_def
  MAX_SENTENCE_LEN_def upt_conv_Cons

lemmas demo_defs =
  demo_config_def demo_state_def demo_state_saturating_def demo_state_head_saturating_def
  demo_buffers_def
  demo_reduced_windows_def demo_randint_def

section \<open>The lookup tables\<close>

lemma EXP_TABLE_nth:
  assumes "i < 1000"
  shows "EXP_TABLE ! i = sigmoid ((real i / 1000 * 2 - 1) * 6)"
proof -
  define x where "x = (real i / 1000 * 2 - 1) * 6"
  have pos: "exp x + 1 \<noteq> 0" using exp_gt_zero [of x] by linarith
  have "EXP_TABLE ! i = exp x / (exp x + 1)"
    using assms by (simp add: EXP_TABLE_def EXP_TABLE_SIZE_def MAX_EXP_def Let_def x_def)
  also have "\<dots> = sigmoid x"
    using pos by (simp add: sigmoid_def exp_minus field_simps)
  finally show ?thesis by (simp add: x_def)
qed

lemma LOG_TABLE_nth: "i < 1000 \<Longrightarrow> LOG_TABLE ! i = ln (EXP_TABLE ! i)"
  by (simp add: LOG_TABLE_def EXP_TABLE_SIZE_def)


















section \<open>Sub-unit slices\<close>

lemma sub_slice_inside:
  assumes "1 \<le> t" and "t < 2 ^ 31"
    and "t < length (EndIdx_map c fld)" and "t < length (LengInv_map c fld)"
  shows "sub_slice c fld (int_of_uint32 t) =
     Inr (LengInv_map c fld ! t, int_of_uint32 (EndIdx_map c fld ! (t - 1)),
          int_of_uint32 (EndIdx_map c fld ! t))"
  using assms by (simp add: sub_slice_def rd_def int_of_uint32_def nat_diff_distrib)

lemma sub_slice_zero:
  "LengInv_map c fld \<noteq> [] \<Longrightarrow>
   sub_slice c fld (int_of_uint32 0) = Inl (OutOfBounds A_EndIdx (- 1))"
  by (simp add: sub_slice_def rd_def int_of_uint32_def)

text \<open>
  Claim C9. When the two slice bounds of a context token are equal, the step of the
  aggregation for that token returns the projection buffer as it was, whatever the
  buffer, the matrix and the token's \<^verbatim>\<open>LengInv\<close> value are, and it returns normally: the
  value of \<^verbatim>\<open>LengInv\<close> is read and handed to no operation at all.
\<close>

theorem empty_slice_contributes_nothing:
  assumes "rd A_indexes indexes m = Inr t"
    and "rd A_LengInv (LengInv_map c fld_idx) (int_of_uint32 t) = Inr lenginv"
    and "rd A_EndIdx (EndIdx_map c fld_idx) (int_of_uint32 t - 1) = Inr e"
    and "rd A_EndIdx (EndIdx_map c fld_idx) (int_of_uint32 t) = Inr e"
  shows "sub_gather_token c indexes fld_idx syn0 h m = Inr h"
  using assms by (simp add: sub_gather_token_def sub_slice_def range_int_empty)

theorem empty_slice_contributes_nothing_witness:
  "sub_gather_token (demo_config\<lparr>EndIdx_map := \<lambda>_. [0, 0, 0, 0, 0, 2]\<rparr>) [4, 5] 0
     [[1], [2]] [[7], [8]] 0 = Inr [[7], [8]]"
proof -
  let ?c = "demo_config\<lparr>EndIdx_map := \<lambda>_. [0, 0, 0, 0, 0, 2]\<rparr>"
  have 1: "rd A_indexes [4, 5 :: nat] 0 = Inr 4"
    by (simp add: rd_def)
  have 2: "rd A_LengInv (LengInv_map ?c 0) (int_of_uint32 4) = Inr 1"
    by (simp add: rd_def demo_config_def int_of_uint32_def)
  have 3: "rd A_EndIdx (EndIdx_map ?c 0) (int_of_uint32 4 - 1) = Inr 0"
    by (simp add: rd_def int_of_uint32_def)
  have 4: "rd A_EndIdx (EndIdx_map ?c 0) (int_of_uint32 4) = Inr 0"
    by (simp add: rd_def int_of_uint32_def)
  show ?thesis
    by (rule empty_slice_contributes_nothing [OF 1 2 3 4])
qed

text \<open>
  Claim C10. The gather and the scatter of the sub field both read the slice bounds of
  a context token \<open>t\<close> at \<open>EndIdx[t-1]\<close> and \<open>EndIdx[t]\<close>. For \<open>t \<ge> 1\<close> inside the tables
  both reads succeed. For \<open>t = 0\<close> the first read is at index \<open>-1\<close>, before the start of
  the array, in the gather and in the scatter alike. The mode without subsampling lets
  such a token through: a batch call of either entry point on the sentence \<open>[4, 0]\<close> ends
  in that read.
\<close>

theorem EndIdx_read_before_start:
  "(1 \<le> t \<and> t < 2 ^ 31 \<and> t < length (EndIdx_map c fld) \<and> t < length (LengInv_map c fld) \<longrightarrow>
      sub_slice c fld (int_of_uint32 t) =
        Inr (LengInv_map c fld ! t, int_of_uint32 (EndIdx_map c fld ! (t - 1)),
             int_of_uint32 (EndIdx_map c fld ! t))) \<and>
   (LengInv_map c fld \<noteq> [] \<and> rd A_indexes indexes m = Inr 0 \<longrightarrow>
      sub_gather_token c indexes fld syn0 h m = Inl (OutOfBounds A_EndIdx (- 1)) \<and>
      sub_scatter_token c indexes fld wk syn0 m = Inl (OutOfBounds A_EndIdx (- 1))) \<and>
   train_batch_fieldembed_negsamp g0 demo_config [] demo_randint demo_buffers
       demo_reduced_windows [4, 0] [2] False demo_state
     = Inl (OutOfBounds A_EndIdx (- 1)) \<and>
   train_batch_fieldembed_0X1_neat g1 g2 demo_config [] demo_randint demo_buffers
       demo_reduced_windows [4, 0] [2] False demo_state
     = Inl (OutOfBounds A_EndIdx (- 1))"
proof -
  have inside: "1 \<le> t \<and> t < 2 ^ 31 \<and> t < length (EndIdx_map c fld) \<and>
      t < length (LengInv_map c fld) \<longrightarrow>
      sub_slice c fld (int_of_uint32 t) =
        Inr (LengInv_map c fld ! t, int_of_uint32 (EndIdx_map c fld ! (t - 1)),
             int_of_uint32 (EndIdx_map c fld ! t))"
    using sub_slice_inside [of t c fld] by blast
  have before: "LengInv_map c fld \<noteq> [] \<and> rd A_indexes indexes m = Inr 0 \<longrightarrow>
      sub_gather_token c indexes fld syn0 h m = Inl (OutOfBounds A_EndIdx (- 1)) \<and>
      sub_scatter_token c indexes fld wk syn0 m = Inl (OutOfBounds A_EndIdx (- 1))"
    using sub_slice_zero [of c fld]
    by (simp add: sub_gather_token_def sub_scatter_token_def)
  have negsamp: "train_batch_fieldembed_negsamp g0 demo_config [] demo_randint demo_buffers
       demo_reduced_windows [4, 0] [2] False demo_state
     = Inl (OutOfBounds A_EndIdx (- 1))"
    by (simp add: driver_defs demo_defs kernel_defs)
  have neat: "train_batch_fieldembed_0X1_neat g1 g2 demo_config [] demo_randint demo_buffers
       demo_reduced_windows [4, 0] [2] False demo_state
     = Inl (OutOfBounds A_EndIdx (- 1))"
    by (simp add: driver_defs demo_defs kernel_defs)
  show ?thesis
    using inside before negsamp neat by blast
qed

theorem EndIdx_read_before_start_witness:
  "sub_slice demo_config 0 (int_of_uint32 4) = Inr (1, 0, 1) \<and>
   rd A_indexes [4, 0 :: nat] 1 = Inr 0 \<and>
   sub_gather_token demo_config [4, 0] 0 [[1], [0]] [[0], [0]] 1
     = Inl (OutOfBounds A_EndIdx (- 1)) \<and>
   sub_scatter_token demo_config [4, 0] 0 [[0], [0]] [[1], [0]] 1
     = Inl (OutOfBounds A_EndIdx (- 1))"
proof -
  have pre1: "1 \<le> (4 :: nat) \<and> (4 :: nat) < 2 ^ 31 \<and> 4 < length (EndIdx_map demo_config 0) \<and>
      4 < length (LengInv_map demo_config 0)"
    by (simp add: demo_config_def)
  have pre2: "LengInv_map demo_config 0 \<noteq> [] \<and> rd A_indexes [4, 0 :: nat] 1 = Inr 0"
    by (simp add: demo_config_def rd_def)
  have vals: "LengInv_map demo_config 0 ! 4 = 1 \<and> EndIdx_map demo_config 0 ! (4 - 1) = 0 \<and>
      EndIdx_map demo_config 0 ! 4 = 1"
    by (simp add: demo_config_def)
  show ?thesis
    using EndIdx_read_before_start
      [of 4 demo_config 0 "[4, 0]" 1 "[[1], [0]]" "[[0], [0]]" "[[0], [0]]" "[]" 0 0]
      pre1 pre2 vals
    by (simp add: int_of_uint32_def)
qed

section \<open>The two kernels on concrete calls\<close>

lemma EXP_TABLE_bounds:
  assumes "i < 1000"
  shows "0 < EXP_TABLE ! i \<and> EXP_TABLE ! i < 1"
proof -
  define x where "x = (real i / 1000 * 2 - 1) * 6"
  have "0 < exp (- x)" by simp
  then have "0 < sigmoid x \<and> sigmoid x < 1"
    by (simp add: sigmoid_def add_pos_pos)
  then show ?thesis
    using EXP_TABLE_nth [OF assms] by (simp add: x_def)
qed

text \<open>
  Claim C1 at two concrete calls. The window holds the one context word 4 and the target
  is word 5. In the first call the dot product of the sub field with the output row of
  the target is 6, which is saturated, and that of the head field is 1, which is not. In
  \<^verbatim>\<open>fieldembed_token_neg_0X1_neat\<close> the \<^verbatim>\<open>continue\<close> of the sub field ends the step: the
  head field is not evaluated, \<^verbatim>\<open>work\<close> stays zero and neither the output row nor the
  head matrix changes. In \<^verbatim>\<open>fieldembed_negsamp\<close> the head field is evaluated, and the
  second phase adds \<open>g[0] * neu1\<close> of the saturated sub field to the output row, with the
  value \<open>ga\<close> that \<open>g[0]\<close> had on entry. In the second call the head field is the
  saturated one: in both variants the sub field has added its gradient to \<^verbatim>\<open>work\<close>, and
  the \<^verbatim>\<open>continue\<close> of the head field leaves the step before the second phase, so the
  output row stays as it was.
\<close>

theorem saturated_field_not_isolated:
  "(\<exists>st. prologue demo_config [4, 5] 1 0 1 demo_state_saturating = Inr (5, 1, st) \<and>
      field_dot demo_config 5 0 st = Inr 6 \<and> saturated 6 \<and>
      field_dot demo_config 5 1 st = Inr 1 \<and> \<not> saturated 1) \<and>
   (\<exists>st'. fieldembed_token_neg_0X1_neat g0 g20 demo_config [4, 5] 1 0 1 demo_state_saturating
        = Inr st' \<and>
      work st' = [[0], [0]] \<and> syn1neg st' = syn1neg demo_state_saturating \<and>
      syn0_map st' 1 = syn0_map demo_state_saturating 1) \<and>
   (\<exists>st'. fieldembed_negsamp [ga, gb] demo_config [4, 5] 1 0 1 demo_state_saturating = Inr st' \<and>
      work st' = [[0], [1 - EXP_TABLE ! 581]] \<and>
      syn1neg st' ! 5 = [ga * 6 + 1 + (1 - EXP_TABLE ! 581)]) \<and>
   (\<exists>st'. fieldembed_token_neg_0X1_neat g0 g20 demo_config [4, 5] 1 0 1
        demo_state_head_saturating = Inr st' \<and>
      work st' = [[1 - EXP_TABLE ! 581], [0]] \<and> 1 - EXP_TABLE ! 581 \<noteq> 0 \<and>
      syn1neg st' = syn1neg demo_state_head_saturating) \<and>
   (\<exists>st'. fieldembed_negsamp [ga, gb] demo_config [4, 5] 1 0 1
        demo_state_head_saturating = Inr st' \<and>
      work st' = [[1 - EXP_TABLE ! 581], [0]] \<and>
      syn1neg st' = syn1neg demo_state_head_saturating)"
proof -
  have f: "EXP_TABLE ! 581 \<noteq> 1"
    using EXP_TABLE_bounds [of 581] by simp
  have pro: "prologue demo_config [4, 5] 1 0 1 demo_state_saturating =
      Inr (5, 1, demo_state_saturating\<lparr>neu1 := [[6], [1]]\<rparr>)"
    by (simp add: demo_defs kernel_defs)
  have dots: "field_dot demo_config 5 0 (demo_state_saturating\<lparr>neu1 := [[6], [1]]\<rparr>) = Inr 6 \<and>
      field_dot demo_config 5 1 (demo_state_saturating\<lparr>neu1 := [[6], [1]]\<rparr>) = Inr 1"
    by (simp add: demo_defs kernel_defs)
  have sat: "saturated 6 \<and> \<not> saturated 1"
    by (simp add: saturated_def MAX_EXP_def)
  have neat: "fieldembed_token_neg_0X1_neat g0 g20 demo_config [4, 5] 1 0 1 demo_state_saturating
      = Inr (demo_state_saturating\<lparr>neu1 := [[6], [1]]\<rparr>)"
    by (simp add: demo_defs kernel_defs) (simp add: fun_eq_iff)?
  have negsamp: "fieldembed_negsamp [ga, gb] demo_config [4, 5] 1 0 1 demo_state_saturating
      = Inr (demo_state_saturating
          \<lparr>syn1neg := [[0], [0], [0], [0], [0], [ga * 6 + 1 + (1 - EXP_TABLE ! 581)]],
           neu1 := [[6], [1]], work := [[0], [1 - EXP_TABLE ! 581]]\<rparr>)"
    by (simp add: demo_defs kernel_defs) (simp add: fun_eq_iff)?
  have neat_head: "fieldembed_token_neg_0X1_neat g0 g20 demo_config [4, 5] 1 0 1
        demo_state_head_saturating
      = Inr (demo_state_head_saturating
          \<lparr>syn0_map := (syn0_map demo_state_head_saturating)
              (0 := [[2 - EXP_TABLE ! 581], [0]]),
           neu1 := [[1], [6]], work := [[1 - EXP_TABLE ! 581], [0]]\<rparr>)"
    by (simp add: demo_defs kernel_defs) (simp add: fun_eq_iff)?
  have negsamp_head: "fieldembed_negsamp [ga, gb] demo_config [4, 5] 1 0 1
        demo_state_head_saturating
      = Inr (demo_state_head_saturating
          \<lparr>neu1 := [[1], [6]], work := [[1 - EXP_TABLE ! 581], [0]]\<rparr>)"
    by (simp add: demo_defs kernel_defs) (simp add: fun_eq_iff)?
  show ?thesis
    using pro dots sat f
    by (simp add: neat negsamp neat_head negsamp_head) (simp add: demo_defs)
qed

text \<open>
  Claim C2 at two concrete calls, both with the locals of the kernels zero on entry: the
  two variants do not leave the same state. On the first (target position 2, window
  \<open>[1, 3)\<close>, so that position 1 is the context) both variants compute the same \<^verbatim>\<open>work\<close>
  and output matrix, and \<^verbatim>\<open>fieldembed_token_neg_0X1_neat\<close> scatters into the rows of the
  context word alone, while \<^verbatim>\<open>fieldembed_negsamp\<close>, whose loop
  \<^verbatim>\<open>for i in range(use_sub)\<close> has set \<open>i\<close> to 0, scatters into the rows of the target
  word as well. On the second (the sub field saturated, loss tracking on)
  \<^verbatim>\<open>fieldembed_token_neg_0X1_neat\<close> leaves the step at the sub field, while
  \<^verbatim>\<open>fieldembed_negsamp\<close> goes on to the head field: the output matrices and the running
  losses differ.
\<close>

theorem variants_differ_on_identical_input:
  "fieldembed_token_neg_0X1_neat 0 0 demo_config [4, 4, 5] 2 1 3 demo_state
     = Inr (demo_state
         \<lparr>syn0_map := (syn0_map demo_state)
             (0 := [[2 - EXP_TABLE ! 581], [0]],
              1 := [[0], [0], [0], [0], [2 - EXP_TABLE ! 581], [0]]),
          syn1neg := [[0], [0], [0], [0], [0], [3 - 2 * EXP_TABLE ! 581]],
          neu1 := [[1], [1]],
          work := [[1 - EXP_TABLE ! 581], [1 - EXP_TABLE ! 581]]\<rparr>) \<and>
   fieldembed_negsamp [0, 0] demo_config [4, 4, 5] 2 1 3 demo_state
     = Inr (demo_state
         \<lparr>syn0_map := (syn0_map demo_state)
             (0 := [[2 - EXP_TABLE ! 581], [1 - EXP_TABLE ! 581]],
              1 := [[0], [0], [0], [0], [2 - EXP_TABLE ! 581], [1 - EXP_TABLE ! 581]]),
          syn1neg := [[0], [0], [0], [0], [0], [3 - 2 * EXP_TABLE ! 581]],
          neu1 := [[1], [1]],
          work := [[1 - EXP_TABLE ! 581], [1 - EXP_TABLE ! 581]]\<rparr>) \<and>
   [[2 - EXP_TABLE ! 581], [0]] \<noteq> [[2 - EXP_TABLE ! 581], [1 - EXP_TABLE ! 581]] \<and>
   fieldembed_token_neg_0X1_neat 0 0 (demo_config\<lparr>compute_loss := 1\<rparr>) [4, 5] 1 0 1
       demo_state_saturating
     = Inr (demo_state_saturating\<lparr>neu1 := [[6], [1]]\<rparr>) \<and>
   fieldembed_negsamp [0, 0] (demo_config\<lparr>compute_loss := 1\<rparr>) [4, 5] 1 0 1
       demo_state_saturating
     = Inr (demo_state_saturating
         \<lparr>syn1neg := [[0], [0], [0], [0], [0], [2 - EXP_TABLE ! 581]],
          neu1 := [[6], [1]], work := [[0], [1 - EXP_TABLE ! 581]],
          running_training_loss := - LOG_TABLE ! 581\<rparr>) \<and>
   [[0], [0], [0], [0], [0], [2 - EXP_TABLE ! 581]] \<noteq> syn1neg demo_state_saturating \<and>
   - LOG_TABLE ! 581 \<noteq> running_training_loss demo_state_saturating"
proof -
  have f: "0 < EXP_TABLE ! 581 \<and> EXP_TABLE ! 581 < 1"
    using EXP_TABLE_bounds [of 581] by simp
  then have "ln (EXP_TABLE ! 581) < 0" by simp
  then have l: "LOG_TABLE ! 581 \<noteq> 0"
    using LOG_TABLE_nth [of 581] by simp
  have neat: "fieldembed_token_neg_0X1_neat 0 0 demo_config [4, 4, 5] 2 1 3 demo_state
      = Inr (demo_state
          \<lparr>syn0_map := (syn0_map demo_state)
              (0 := [[2 - EXP_TABLE ! 581], [0]],
               1 := [[0], [0], [0], [0], [2 - EXP_TABLE ! 581], [0]]),
           syn1neg := [[0], [0], [0], [0], [0], [3 - 2 * EXP_TABLE ! 581]],
           neu1 := [[1], [1]],
           work := [[1 - EXP_TABLE ! 581], [1 - EXP_TABLE ! 581]]\<rparr>)"
    by (simp add: demo_defs kernel_defs) (simp add: fun_eq_iff)?
  have negsamp: "fieldembed_negsamp [0, 0] demo_config [4, 4, 5] 2 1 3 demo_state
      = Inr (demo_state
          \<lparr>syn0_map := (syn0_map demo_state)
              (0 := [[2 - EXP_TABLE ! 581], [1 - EXP_TABLE ! 581]],
               1 := [[0], [0], [0], [0], [2 - EXP_TABLE ! 581], [1 - EXP_TABLE ! 581]]),
           syn1neg := [[0], [0], [0], [0], [0], [3 - 2 * EXP_TABLE ! 581]],
           neu1 := [[1], [1]],
           work := [[1 - EXP_TABLE ! 581], [1 - EXP_TABLE ! 581]]\<rparr>)"
    by (simp add: demo_defs kernel_defs) (simp add: fun_eq_iff)?
  have neat_sat: "fieldembed_token_neg_0X1_neat 0 0 (demo_config\<lparr>compute_loss := 1\<rparr>) [4, 5] 1 0 1
       demo_state_saturating
     = Inr (demo_state_saturating\<lparr>neu1 := [[6], [1]]\<rparr>)"
    by (simp add: demo_defs kernel_defs) (simp add: fun_eq_iff)?
  have negsamp_sat: "fieldembed_negsamp [0, 0] (demo_config\<lparr>compute_loss := 1\<rparr>) [4, 5] 1 0 1
       demo_state_saturating
     = Inr (demo_state_saturating
         \<lparr>syn1neg := [[0], [0], [0], [0], [0], [2 - EXP_TABLE ! 581]],
          neu1 := [[6], [1]], work := [[0], [1 - EXP_TABLE ! 581]],
          running_training_loss := - LOG_TABLE ! 581\<rparr>)"
    by (simp add: demo_defs kernel_defs) (simp add: fun_eq_iff)?
  have diff: "[[2 - EXP_TABLE ! 581], [0]] \<noteq> [[2 - EXP_TABLE ! 581], [1 - EXP_TABLE ! 581]] \<and>
      [[0], [0], [0], [0], [0], [2 - EXP_TABLE ! 581]] \<noteq> syn1neg demo_state_saturating \<and>
      - LOG_TABLE ! 581 \<noteq> running_training_loss demo_state_saturating"
    using f l by (simp add: demo_defs)
  show ?thesis
    using neat negsamp neat_sat negsamp_sat diff by blast
qed

text \<open>
  Claim C8 at a concrete call of \<^verbatim>\<open>fieldembed_negsamp\<close>: target position 2, window
  \<open>[1, 3)\<close>, so that the only context word is word 4 (at position 1) with its sub-unit
  0, and the rows a call may write are rows 0 and 4. The call also changes the head row
  of the target word 5 and the row of its sub-unit 1.
\<close>

theorem negsamp_updates_target_rows:
  "touched_rows demo_config [4, 4, 5] 2 1 3 = {0, 4} \<and>
   (\<exists>s'. fieldembed_negsamp [ga, gb] demo_config [4, 4, 5] 2 1 3 demo_state = Inr s' \<and>
     syn0_map demo_state 1 ! 5 = [0] \<and> syn0_map s' 1 ! 5 = [1 - EXP_TABLE ! 581] \<and>
     syn0_map s' 1 ! 5 \<noteq> syn0_map demo_state 1 ! 5 \<and>
     syn0_map demo_state 0 ! 1 = [0] \<and> syn0_map s' 0 ! 1 = [1 - EXP_TABLE ! 581] \<and>
     syn0_map s' 0 ! 1 \<noteq> syn0_map demo_state 0 ! 1)"
proof -
  have f: "EXP_TABLE ! 581 \<noteq> 1"
    using EXP_TABLE_bounds [of 581] by simp
  have rows: "touched_rows demo_config [4, 4, 5] 2 1 3 = {0, 4}"
    by (auto simp: touched_rows_def context_tokens_def context_positions_def sub_units_def
        demo_config_def bump_def int_of_uint32_def range_int_step range_int_empty)
  have negsamp: "fieldembed_negsamp [ga, gb] demo_config [4, 4, 5] 2 1 3 demo_state
      = Inr (demo_state
          \<lparr>syn0_map := (syn0_map demo_state)
              (0 := [[2 - EXP_TABLE ! 581], [1 - EXP_TABLE ! 581]],
               1 := [[0], [0], [0], [0], [2 - EXP_TABLE ! 581], [1 - EXP_TABLE ! 581]]),
           syn1neg := [[0], [0], [0], [0], [0], [3 - 2 * EXP_TABLE ! 581]],
           neu1 := [[1], [1]],
           work := [[1 - EXP_TABLE ! 581], [1 - EXP_TABLE ! 581]]\<rparr>)"
    by (simp add: demo_defs kernel_defs) (simp add: fun_eq_iff)?
  show ?thesis
    using f rows by (simp add: negsamp) (simp add: demo_defs)
qed

section \<open>Packing and capacity\<close>

lemma zip_upt_Cons: "zip [n..<n + length (x # xs)] (x # xs) = (n, x) # zip [Suc n..<Suc n + length xs] xs"
  by (simp add: upt_conv_Cons del: upt_Suc)

lemma enumerate_wr_overflow:
  "n \<le> length buf \<Longrightarrow> length buf < n + length xs \<Longrightarrow>
   foldE (\<lambda>buf (i, item). wr a buf (int i) (f item)) buf (zip [n..<n + length xs] xs)
     = Inl (OutOfBounds a (int (length buf)))"
proof (induction xs arbitrary: n buf)
  case Nil
  then show ?case by simp
next
  case (Cons x xs)
  show ?case
  proof (cases "n < length buf")
    case True
    then have "foldE (\<lambda>buf (i, item). wr a buf (int i) (f item)) (buf[n := f x])
        (zip [Suc n..<Suc n + length xs] xs) = Inl (OutOfBounds a (int (length (buf[n := f x]))))"
      using Cons.prems by (intro Cons.IH) simp_all
    then show ?thesis
      using True by (simp only: zip_upt_Cons foldE.simps) (simp add: wr_def)
  next
    case False
    with Cons.prems have "n = length buf" by simp
    then show ?thesis
      by (simp only: zip_upt_Cons foldE.simps) (simp add: wr_def)
  qed
qed

lemma enumerate_wr_fits:
  "n + length xs \<le> length buf \<Longrightarrow>
   foldE (\<lambda>buf (i, item). wr a buf (int i) (f item)) buf (zip [n..<n + length xs] xs)
     = Inr (take n buf @ map f xs @ drop (n + length xs) buf)"
proof (induction xs arbitrary: n buf)
  case Nil
  then show ?case by simp
next
  case (Cons x xs)
  have n: "n < length buf" using Cons.prems by simp
  have "foldE (\<lambda>buf (i, item). wr a buf (int i) (f item)) (buf[n := f x])
      (zip [Suc n..<Suc n + length xs] xs)
    = Inr (take (Suc n) (buf[n := f x]) @ map f xs @ drop (Suc n + length xs) (buf[n := f x]))"
    using Cons.prems by (intro Cons.IH) simp
  also have "take (Suc n) (buf[n := f x]) = take n buf @ [f x]"
    using n by (simp add: take_Suc_conv_app_nth)
  finally show ?case
    using n by (simp only: zip_upt_Cons foldE.simps) (simp add: wr_def)
qed

lemma pack_verbatim_overflow:
  "length (c_indexes ps) < length indexes \<Longrightarrow>
   pack_verbatim indexes sentence_idx ps = Inl (OutOfBounds A_indexes (int (length (c_indexes ps))))"
  using enumerate_wr_overflow [of 0 "c_indexes ps" indexes A_indexes "\<lambda>x. x"]
  by (simp add: pack_verbatim_def)

lemma empty_sentences_overflow:
  "effective_words ps = 0 \<Longrightarrow> effective_sentences ps = int n \<Longrightarrow> n \<le> length (c_sentence_idx ps) \<Longrightarrow>
   length (c_sentence_idx ps) < n + length ss \<Longrightarrow> \<forall>s<length sentence_idx. sentence_idx ! s = 0 \<Longrightarrow>
   set ss \<subseteq> {..<length sentence_idx} \<Longrightarrow>
   pack_sentences smp vlookup indexes sentence_idx ss ps
     = Inl (OutOfBounds A_sentence_idx (int (length (c_sentence_idx ps))))"
proof (induction ss arbitrary: n ps)
  case Nil
  then show ?case by simp
next
  case (Cons s ss)
  have s0: "sentence_idx ! s = 0" using Cons.prems by simp
  show ?case
  proof (cases "n < length (c_sentence_idx ps)")
    case True
    let ?ps = "ps\<lparr>c_sentence_idx := (c_sentence_idx ps)[n := 0], effective_sentences := int n + 1\<rparr>"
    have "pack_sentences smp vlookup indexes sentence_idx ss ?ps
        = Inl (OutOfBounds A_sentence_idx (int (length (c_sentence_idx ?ps))))"
      using Cons.prems True by (intro Cons.IH [of _ "Suc n"]) simp_all
    then show ?thesis
      using True Cons.prems(1,2) s0
      by (simp add: wr_def Let_def MAX_SENTENCE_LEN_def)
  next
    case False
    with Cons.prems have "n = length (c_sentence_idx ps)" by simp
    then show ?thesis
      using Cons.prems(1,2) s0 by (simp add: wr_def Let_def)
  qed
qed

text \<open>
  The subsampling path keeps within \<^verbatim>\<open>c.indexes\<close>: it stores a token only while the count
  is below \<open>MAX_SENTENCE_LEN\<close>, so the count it ends with is at most that, and packing
  never fails on a store to \<^verbatim>\<open>c.indexes\<close>.
\<close>

lemma pack_tokens_capacity:
  assumes "0 \<le> effective_words ps" and "effective_words ps < int MAX_SENTENCE_LEN"
    and "length (c_indexes ps) = MAX_SENTENCE_LEN"
  shows "(case pack_tokens smp vlookup toks ps of
            Inl e \<Rightarrow> e = IndexError
          | Inr ps' \<Rightarrow> 0 \<le> effective_words ps' \<and> effective_words ps' \<le> int MAX_SENTENCE_LEN \<and>
              length (c_indexes ps') = MAX_SENTENCE_LEN)"
  using assms
proof (induction toks arbitrary: ps)
  case Nil
  then show ?case by simp
next
  case (Cons w toks)
  show ?case
  proof (cases "w \<le> 3")
    case True
    with Cons.IH [OF Cons.prems] show ?thesis by simp
  next
    case False
    show ?thesis
    proof (cases "smp \<and> \<not> w < length vlookup")
      case True
      with False show ?thesis by simp
    next
      case ok: False
      obtain dropped ps1 where
        dec: "(if smp then
                 (if w < length vlookup then
                    (case random_int32 (c_next_random ps) of
                       (r, nr) \<Rightarrow> Inr (vlookup ! w < unat r, ps\<lparr>c_next_random := nr\<rparr>))
                  else Inl IndexError)
               else Inr (False, ps)) = Inr (dropped, ps1)"
        and ps1: "effective_words ps1 = effective_words ps" "c_indexes ps1 = c_indexes ps"
        using ok by (cases smp; cases "random_int32 (c_next_random ps)") auto
      have pre1: "0 \<le> effective_words ps1" "effective_words ps1 < int MAX_SENTENCE_LEN"
        "length (c_indexes ps1) = MAX_SENTENCE_LEN"
        using Cons.prems ps1 by simp_all
      show ?thesis
      proof (cases dropped)
        case True
        with False dec Cons.IH [OF pre1] show ?thesis by simp
      next
        case nd: False
        let ?buf = "(c_indexes ps1)[nat (effective_words ps1) := w]"
        let ?ps2 = "ps1\<lparr>c_indexes := ?buf, effective_words := effective_words ps1 + 1\<rparr>"
        have wr: "wr A_indexes (c_indexes ps1) (effective_words ps1) w = Inr ?buf"
          using pre1 by (simp add: wr_def)
        show ?thesis
        proof (cases "effective_words ps1 + 1 = int MAX_SENTENCE_LEN")
          case True
          then show ?thesis
            using False dec nd wr pre1 by (simp add: Let_def)
        next
          case nf: False
          have "0 \<le> effective_words ?ps2" "effective_words ?ps2 < int MAX_SENTENCE_LEN"
            "length (c_indexes ?ps2) = MAX_SENTENCE_LEN"
            using pre1 nf by simp_all
          from Cons.IH [OF this] show ?thesis
            using False dec nd wr nf by (simp add: Let_def)
        qed
      qed
    qed
  qed
qed

lemma pack_sentences_capacity:
  assumes "0 \<le> effective_words ps" and "effective_words ps < int MAX_SENTENCE_LEN"
    and "length (c_indexes ps) = MAX_SENTENCE_LEN"
  shows "(case pack_sentences smp vlookup indexes sentence_idx ss ps of
            Inl e \<Rightarrow> e = IndexError \<or> (\<exists>x. e = OutOfBounds A_sentence_idx x)
          | Inr ps' \<Rightarrow> 0 \<le> effective_words ps' \<and> effective_words ps' \<le> int MAX_SENTENCE_LEN)"
  using assms
proof (induction ss arbitrary: ps)
  case Nil
  then show ?case by simp
next
  case (Cons s ss)
  let ?toks = "drop (if s = 0 then 0 else sentence_idx ! (s - 1)) (take (sentence_idx ! s) indexes)"
  show ?case
  proof (cases "pack_tokens smp vlookup ?toks ps")
    case (Inl e)
    with pack_tokens_capacity [OF Cons.prems, of smp vlookup ?toks] show ?thesis
      by (simp add: Let_def)
  next
    case (Inr ps1)
    with pack_tokens_capacity [OF Cons.prems, of smp vlookup ?toks]
    have ps1: "0 \<le> effective_words ps1" "effective_words ps1 \<le> int MAX_SENTENCE_LEN"
      "length (c_indexes ps1) = MAX_SENTENCE_LEN"
      by simp_all
    show ?thesis
    proof (cases "wr A_sentence_idx (c_sentence_idx ps1) (effective_sentences ps1) (effective_words ps1)")
      case (Inl e)
      then have "\<exists>x. e = OutOfBounds A_sentence_idx x"
        by (auto simp: wr_def split: if_splits)
      with Inl \<open>pack_tokens smp vlookup ?toks ps = Inr ps1\<close> show ?thesis
        by (simp add: Let_def)
    next
      case (Inr si)
      let ?ps2 = "ps1\<lparr>c_sentence_idx := si, effective_sentences := effective_sentences ps1 + 1\<rparr>"
      show ?thesis
      proof (cases "effective_words ps1 = int MAX_SENTENCE_LEN")
        case True
        then show ?thesis
          using Inr \<open>pack_tokens smp vlookup ?toks ps = Inr ps1\<close> ps1 by (simp add: Let_def)
      next
        case False
        then have "0 \<le> effective_words ?ps2" "effective_words ?ps2 < int MAX_SENTENCE_LEN"
          "length (c_indexes ?ps2) = MAX_SENTENCE_LEN"
          using ps1 by simp_all
        from Cons.IH [OF this] show ?thesis
          using Inr \<open>pack_tokens smp vlookup ?toks ps = Inr ps1\<close> False by (simp add: Let_def)
      qed
    qed
  qed
qed

lemma subsampling_mode_capped:
  assumes "length (c_indexes ps) = MAX_SENTENCE_LEN"
  shows "(case pack True smp vlookup indexes sentence_idx
                (ps\<lparr>effective_words := 0, effective_sentences := 0, c_next_random := r\<rparr>) of
            Inl e \<Rightarrow> e = IndexError \<or> (\<exists>x. e = OutOfBounds A_sentence_idx x)
          | Inr ps' \<Rightarrow> 0 \<le> effective_words ps' \<and> effective_words ps' \<le> int MAX_SENTENCE_LEN)"
  using pack_sentences_capacity
    [of "ps\<lparr>effective_words := 0, effective_sentences := 0, c_next_random := r\<rparr>"]
    assms
  by (simp add: pack_def pack_subsampling_def MAX_SENTENCE_LEN_def)

text \<open>
  Claim C4 at concrete calls. Without subsampling, a stream of 10001 tokens makes the
  copy loop store at index 10000 of \<^verbatim>\<open>c.indexes\<close>, one past its last element, whatever
  the kernel and the model are; the count set before the loop is the length of the
  input, not a capped one. With subsampling, a batch of empty sentences, one more than
  \<^verbatim>\<open>c.sentence_idx\<close> has elements, makes the driver store past the end of that array.
\<close>

theorem verbatim_mode_overflows:
  "length (c_indexes demo_buffers) = MAX_SENTENCE_LEN \<and>
   train_batch kern c vlookup randint demo_buffers rw0 (replicate 10001 4) [10001] False st
     = Inl (OutOfBounds A_indexes (int MAX_SENTENCE_LEN)) \<and>
   train_batch kern c vlookup randint ps rw0 [] (replicate (Suc (length (c_sentence_idx ps))) 0)
       True st
     = Inl (OutOfBounds A_sentence_idx (int (length (c_sentence_idx ps))))"
proof -
  let ?ps = "demo_buffers\<lparr>effective_words := 0, effective_sentences := 0,
      c_next_random := next_random st\<rparr>"
  have len: "length (c_indexes demo_buffers) = MAX_SENTENCE_LEN"
    by (simp add: demo_buffers_def)
  have "pack_verbatim (replicate 10001 4) [10001] ?ps
      = Inl (OutOfBounds A_indexes (int (length (c_indexes ?ps))))"
    by (rule pack_verbatim_overflow) (simp add: len MAX_SENTENCE_LEN_def)
  then have verbatim: "train_batch kern c vlookup randint demo_buffers rw0 (replicate 10001 4)
      [10001] False st = Inl (OutOfBounds A_indexes (int MAX_SENTENCE_LEN))"
    by (simp add: train_batch_def pack_def len)
  let ?n = "Suc (length (c_sentence_idx ps))"
  let ?qs = "ps\<lparr>effective_words := 0, effective_sentences := 0,
      c_next_random := next_random st\<rparr>"
  have "pack_sentences (sample c) vlookup [] (replicate ?n 0) [0..<?n] ?qs
      = Inl (OutOfBounds A_sentence_idx (int (length (c_sentence_idx ?qs))))"
    by (rule empty_sentences_overflow [where n = 0]) (auto simp del: replicate.simps)
  then have sentences: "train_batch kern c vlookup randint ps rw0 []
      (replicate ?n 0) True st
      = Inl (OutOfBounds A_sentence_idx (int (length (c_sentence_idx ps))))"
    by (simp add: train_batch_def pack_def pack_subsampling_def)
  show ?thesis
    using len verbatim sentences by simp
qed

section \<open>Reserved tokens\<close>

lemma foldE_cong_set:
  "(\<And>x s. x \<in> set xs \<Longrightarrow> f s x = g s x) \<Longrightarrow> foldE f s xs = foldE g s xs"
  by (induction xs arbitrary: s) simp_all

lemma set_range_int: "set (range_int j k) = {j..<k}"
  by (auto simp: range_int_def)

lemma packed_inv_next_random: "packed_inv (ps\<lparr>c_next_random := r\<rparr>) = packed_inv ps"
  by (simp add: packed_inv_def)

lemma packed_inv_store:
  assumes inv: "packed_inv ps" and w: "3 < w"
    and wr: "wr A_indexes (c_indexes ps) (effective_words ps) w = Inr buf"
  shows "packed_inv (ps\<lparr>c_indexes := buf, effective_words := effective_words ps + 1\<rparr>)"
proof -
  have lt: "nat (effective_words ps) < length (c_indexes ps)" and nn: "0 \<le> effective_words ps"
    and buf: "buf = (c_indexes ps)[nat (effective_words ps) := w]"
    using wr by (auto simp: wr_def split: if_splits)
  have n1: "nat (effective_words ps + 1) = Suc (nat (effective_words ps))"
    using nn by simp
  have "\<forall>m < Suc (nat (effective_words ps)). 3 < buf ! m"
    using inv w lt by (auto simp: buf packed_inv_def nth_list_update less_Suc_eq)
  moreover have "\<forall>s < nat (effective_sentences ps).
        s < length (c_sentence_idx ps) \<and> 0 \<le> c_sentence_idx ps ! s \<and>
        c_sentence_idx ps ! s \<le> effective_words ps + 1"
    using inv by (auto simp: packed_inv_def)
  ultimately show ?thesis
    using inv lt nn by (simp add: packed_inv_def n1 buf)
qed

lemma pack_tokens_inv:
  "packed_inv ps \<Longrightarrow> pack_tokens smp vlookup toks ps = Inr ps' \<Longrightarrow>
   packed_inv ps' \<and> effective_sentences ps' = effective_sentences ps \<and>
   c_sentence_idx ps' = c_sentence_idx ps"
proof (induction toks arbitrary: ps)
  case Nil
  then show ?case by simp
next
  case (Cons w toks)
  show ?case
  proof (cases "w \<le> 3")
    case True
    with Cons.prems Cons.IH [of ps] show ?thesis by simp
  next
    case False
    then have w: "3 < w" by simp
    obtain dropped ps1 where
      dec: "(if smp then
                 (if w < length vlookup then
                    (case random_int32 (c_next_random ps) of
                       (r, nr) \<Rightarrow> Inr (vlookup ! w < unat r, ps\<lparr>c_next_random := nr\<rparr>))
                  else Inl IndexError)
               else Inr (False, ps)) = Inr (dropped, ps1)"
      and rest: "(if dropped then pack_tokens smp vlookup toks ps1
          else
            bindE (wr A_indexes (c_indexes ps1) (effective_words ps1) w) (\<lambda>buf.
              let ps = ps1\<lparr>c_indexes := buf, effective_words := effective_words ps1 + 1\<rparr> in
              if effective_words ps = int MAX_SENTENCE_LEN then Inr ps
              else pack_tokens smp vlookup toks ps)) = Inr ps'"
      using Cons.prems(2) False by (auto simp: bindE_eq_Inr)
    have ps1: "packed_inv ps1 \<and> effective_sentences ps1 = effective_sentences ps \<and>
        c_sentence_idx ps1 = c_sentence_idx ps"
      using dec Cons.prems(1)
      by (auto simp: packed_inv_next_random split: if_splits prod.splits)
    show ?thesis
    proof (cases dropped)
      case True
      with rest Cons.IH [of ps1] ps1 show ?thesis by simp
    next
      case False
      then obtain buf where wr: "wr A_indexes (c_indexes ps1) (effective_words ps1) w = Inr buf"
        and fin: "(let ps = ps1\<lparr>c_indexes := buf, effective_words := effective_words ps1 + 1\<rparr> in
              if effective_words ps = int MAX_SENTENCE_LEN then Inr ps
              else pack_tokens smp vlookup toks ps) = Inr ps'"
        using rest by (auto simp: bindE_eq_Inr)
      let ?ps2 = "ps1\<lparr>c_indexes := buf, effective_words := effective_words ps1 + 1\<rparr>"
      have inv2: "packed_inv ?ps2"
        using packed_inv_store ps1 w wr by blast
      show ?thesis
      proof (cases "effective_words ?ps2 = int MAX_SENTENCE_LEN")
        case True
        with fin have "ps' = ?ps2" by (simp add: Let_def)
        with inv2 ps1 show ?thesis by simp
      next
        case False
        with fin have "pack_tokens smp vlookup toks ?ps2 = Inr ps'" by (simp add: Let_def)
        from Cons.IH [OF inv2 this] ps1 show ?thesis by simp
      qed
    qed
  qed
qed

lemma packed_inv_sentence:
  assumes inv: "packed_inv ps"
    and wr: "wr A_sentence_idx (c_sentence_idx ps) (effective_sentences ps) (effective_words ps) = Inr si"
  shows "packed_inv (ps\<lparr>c_sentence_idx := si, effective_sentences := effective_sentences ps + 1\<rparr>)"
proof -
  have lt: "nat (effective_sentences ps) < length (c_sentence_idx ps)"
    and nn: "0 \<le> effective_sentences ps"
    and si: "si = (c_sentence_idx ps)[nat (effective_sentences ps) := effective_words ps]"
    using wr by (auto simp: wr_def split: if_splits)
  have n1: "nat (effective_sentences ps + 1) = Suc (nat (effective_sentences ps))"
    using nn by simp
  have "\<forall>s < Suc (nat (effective_sentences ps)).
        s < length si \<and> 0 \<le> si ! s \<and> si ! s \<le> effective_words ps"
    using inv lt by (auto simp: si packed_inv_def nth_list_update less_Suc_eq)
  then show ?thesis
    using inv nn by (simp add: packed_inv_def n1)
qed

lemma pack_sentences_inv:
  "packed_inv ps \<Longrightarrow> pack_sentences smp vlookup indexes sentence_idx ss ps = Inr ps' \<Longrightarrow>
   packed_inv ps'"
proof (induction ss arbitrary: ps)
  case Nil
  then show ?case by simp
next
  case (Cons s ss)
  let ?toks = "drop (if s = 0 then 0 else sentence_idx ! (s - 1)) (take (sentence_idx ! s) indexes)"
  obtain ps1 si where
    toks: "pack_tokens smp vlookup ?toks ps = Inr ps1"
    and wr: "wr A_sentence_idx (c_sentence_idx ps1) (effective_sentences ps1) (effective_words ps1) = Inr si"
    and fin: "(let ps = ps1\<lparr>c_sentence_idx := si, effective_sentences := effective_sentences ps1 + 1\<rparr>
            in
              if effective_words ps = int MAX_SENTENCE_LEN then Inr ps
              else pack_sentences smp vlookup indexes sentence_idx ss ps) = Inr ps'"
    using Cons.prems(2) by (auto simp: bindE_eq_Inr Let_def)
  have inv1: "packed_inv ps1"
    using pack_tokens_inv [OF Cons.prems(1) toks] by simp
  let ?ps2 = "ps1\<lparr>c_sentence_idx := si, effective_sentences := effective_sentences ps1 + 1\<rparr>"
  have inv2: "packed_inv ?ps2"
    using packed_inv_sentence [OF inv1 wr] .
  show ?case
  proof (cases "effective_words ?ps2 = int MAX_SENTENCE_LEN")
    case True
    with fin have "ps' = ?ps2" by (simp add: Let_def)
    with inv2 show ?thesis by simp
  next
    case False
    with fin have "pack_sentences smp vlookup indexes sentence_idx ss ?ps2 = Inr ps'"
      by (simp add: Let_def)
    from Cons.IH [OF inv2 this] show ?thesis .
  qed
qed

lemma train_position_agree:
  assumes agree: "\<And>c ix i j k st. reserved_free ix i j k \<Longrightarrow> kern c ix i j k st = kern' c ix i j k st"
    and lo: "0 \<le> idx_start" and hi: "idx_end \<le> int (length indexes)"
    and ok: "\<forall>m. 0 \<le> m \<and> m < idx_end \<longrightarrow> 3 < indexes ! nat m"
    and i: "idx_start \<le> i" "i < idx_end"
  shows "train_position kern c indexes rw idx_start idx_end st i
       = train_position kern' c indexes rw idx_start idx_end st i"
proof -
  have free: "reserved_free indexes i j k" if "idx_start \<le> j" and "k \<le> idx_end" for j k
    using that lo hi ok i by (auto simp: reserved_free_def set_range_int)
  show ?thesis
  proof (cases "rd A_reduced_windows rw i")
    case (Inl e)
    then show ?thesis by (simp add: train_position_def)
  next
    case (Inr r)
    define j where "j = (if i - window c + r < idx_start then idx_start else i - window c + r)"
    define k where "k = (if i + window c + 1 - r > idx_end then idx_end else i + window c + 1 - r)"
    have jk: "idx_start \<le> j" "k \<le> idx_end" by (simp_all add: j_def k_def)
    have cbow: "kern c indexes i j k st = kern' c indexes i j k st"
      using agree free jk by simp
    have sg: "foldE (\<lambda>st j. if j = i then Inr st else kern c indexes i j (j + 1) st) st (range_int j k)
        = foldE (\<lambda>st j. if j = i then Inr st else kern' c indexes i j (j + 1) st) st (range_int j k)"
    proof (rule foldE_cong_set)
      fix x s assume "x \<in> set (range_int j k)"
      then have "idx_start \<le> x" "x + 1 \<le> idx_end"
        using jk by (auto simp: set_range_int)
      then show "(if x = i then Inr s else kern c indexes i x (x + 1) s)
          = (if x = i then Inr s else kern' c indexes i x (x + 1) s)"
        using agree free by simp
    qed
    show ?thesis
      using Inr cbow sg by (simp add: train_position_def Let_def j_def k_def)
  qed
qed

lemma train_sentence_agree:
  assumes agree: "\<And>c ix i j k st. reserved_free ix i j k \<Longrightarrow> kern c ix i j k st = kern' c ix i j k st"
    and inv: "packed_inv ps" and s: "0 \<le> sent_idx" "sent_idx < effective_sentences ps"
  shows "train_sentence kern c (c_indexes ps) (c_sentence_idx ps) rw st sent_idx
       = train_sentence kern' c (c_indexes ps) (c_sentence_idx ps) rw st sent_idx"
proof -
  have in_range: "nat sent_idx < nat (effective_sentences ps)"
    using s by simp
  then have e: "nat sent_idx < length (c_sentence_idx ps)"
    "0 \<le> c_sentence_idx ps ! nat sent_idx"
    "c_sentence_idx ps ! nat sent_idx \<le> effective_words ps"
    using inv by (simp_all add: packed_inv_def)
  define idx_end where "idx_end = c_sentence_idx ps ! nat sent_idx"
  have rd_end: "rd A_sentence_idx (c_sentence_idx ps) sent_idx = Inr idx_end"
    using s e by (simp add: rd_def idx_end_def)
  have "nat (effective_words ps) \<le> length (c_indexes ps)"
    using inv by (simp add: packed_inv_def)
  then have hi: "idx_end \<le> int (length (c_indexes ps))"
    using e(3) unfolding idx_end_def by linarith
  have ok: "\<forall>m. 0 \<le> m \<and> m < idx_end \<longrightarrow> 3 < c_indexes ps ! nat m"
    using e inv by (auto simp: idx_end_def packed_inv_def)
  obtain idx_start where
    rd_start: "(if sent_idx = 0 then Inr 0 else rd A_sentence_idx (c_sentence_idx ps) (sent_idx - 1))
        = Inr idx_start" and lo: "0 \<le> idx_start"
  proof (cases "sent_idx = 0")
    case True
    then show ?thesis using that [of 0] by simp
  next
    case False
    then have "nat (sent_idx - 1) < nat (effective_sentences ps)" using s by simp
    then have "nat (sent_idx - 1) < length (c_sentence_idx ps)"
      "0 \<le> c_sentence_idx ps ! nat (sent_idx - 1)"
      using inv by (simp_all add: packed_inv_def)
    then show ?thesis
      using that [of "c_sentence_idx ps ! nat (sent_idx - 1)"] False s by (simp add: rd_def)
  qed
  have "foldE (train_position kern c (c_indexes ps) rw idx_start idx_end) st
          (range_int idx_start idx_end)
      = foldE (train_position kern' c (c_indexes ps) rw idx_start idx_end) st
          (range_int idx_start idx_end)"
  proof (rule foldE_cong_set)
    fix x s assume "x \<in> set (range_int idx_start idx_end)"
    then have "idx_start \<le> x" "x < idx_end" by (auto simp: set_range_int)
    then show "train_position kern c (c_indexes ps) rw idx_start idx_end s x
        = train_position kern' c (c_indexes ps) rw idx_start idx_end s x"
      using train_position_agree [OF agree lo hi ok] by simp
  qed
  then show ?thesis
    using rd_end rd_start by (simp add: train_sentence_def)
qed

lemma packed_inv_reset:
  "packed_inv (ps\<lparr>effective_words := 0, effective_sentences := 0, c_next_random := r\<rparr>)"
  by (simp add: packed_inv_def)

lemma train_batch_agree:
  assumes agree: "\<And>c ix i j k st. reserved_free ix i j k \<Longrightarrow> kern c ix i j k st = kern' c ix i j k st"
  shows "train_batch kern c vlookup randint ps rw0 indexes sentence_idx True st
       = train_batch kern' c vlookup randint ps rw0 indexes sentence_idx True st"
proof (cases "pack True (sample c) vlookup indexes sentence_idx
              (ps\<lparr>effective_words := 0, effective_sentences := 0,
                  c_next_random := next_random st\<rparr>)")
  case (Inl e)
  then show ?thesis by (simp add: train_batch_def)
next
  case (Inr ps')
  then have inv: "packed_inv ps'"
    using pack_sentences_inv [OF packed_inv_reset]
    by (simp add: pack_def pack_subsampling_def)
  have "foldE (train_sentence kern c (c_indexes ps') (c_sentence_idx ps') rw) s
          (range_int 0 (effective_sentences ps'))
      = foldE (train_sentence kern' c (c_indexes ps') (c_sentence_idx ps') rw) s
          (range_int 0 (effective_sentences ps'))" for rw s
  proof (rule foldE_cong_set)
    fix x s' assume "x \<in> set (range_int 0 (effective_sentences ps'))"
    then have "0 \<le> x" "x < effective_sentences ps'" by (auto simp: set_range_int)
    then show "train_sentence kern c (c_indexes ps') (c_sentence_idx ps') rw s' x
        = train_sentence kern' c (c_indexes ps') (c_sentence_idx ps') rw s' x"
      using train_sentence_agree [OF agree inv] by simp
  qed
  then show ?thesis
    using Inr by (simp add: train_batch_def)
qed

lemma pack_verbatim_Inr:
  assumes "pack_verbatim indexes sentence_idx ps = Inr ps'"
  shows "c_indexes ps' = indexes @ drop (length indexes) (c_indexes ps) \<and>
     effective_words ps' = int (length indexes)"
proof (cases "length indexes \<le> length (c_indexes ps)")
  case True
  have "foldE (\<lambda>buf (i, item). wr A_indexes buf (int i) item) (c_indexes ps)
      (zip [0..<length indexes] indexes)
    = Inr (indexes @ drop (length indexes) (c_indexes ps))"
    using enumerate_wr_fits [of 0 indexes "c_indexes ps" A_indexes "\<lambda>x. x"] True by simp
  then show ?thesis
    using assms by (auto simp: pack_verbatim_def bindE_eq_Inr)
next
  case False
  then have "pack_verbatim indexes sentence_idx ps
      = Inl (OutOfBounds A_indexes (int (length (c_indexes ps))))"
    by (intro pack_verbatim_overflow) simp
  with assms show ?thesis by simp
qed

text \<open>
  Claim C3, as the code has it. With subsampling, no kernel call of a batch has a
  reserved token as its target or in its window: putting the assertion in front of the
  kernel changes nothing, for any kernel and any input; and every token of the packed
  prefix is above 3. Without subsampling the packed prefix is the input itself.
\<close>

theorem subsampling_excludes_reserved:
  "train_batch (guarded kern) c vlookup randint ps rw0 indexes sentence_idx True st
     = train_batch kern c vlookup randint ps rw0 indexes sentence_idx True st \<and>
   (pack True smp vlookup indexes sentence_idx
        (ps\<lparr>effective_words := 0, effective_sentences := 0\<rparr>) = Inr ps' \<longrightarrow>
      (\<forall>x \<in> set (packed_tokens ps'). 3 < x)) \<and>
   (pack False smp vlookup indexes sentence_idx ps = Inr ps'' \<longrightarrow>
      packed_tokens ps'' = indexes)"
proof -
  have run: "train_batch (guarded kern) c vlookup randint ps rw0 indexes sentence_idx True st
     = train_batch kern c vlookup randint ps rw0 indexes sentence_idx True st"
    by (rule train_batch_agree) (simp add: guarded_def)
  have packed: "\<forall>x \<in> set (packed_tokens ps'). 3 < x"
    if "pack True smp vlookup indexes sentence_idx
        (ps\<lparr>effective_words := 0, effective_sentences := 0\<rparr>) = Inr ps'"
  proof -
    have "packed_inv (ps\<lparr>effective_words := 0, effective_sentences := 0\<rparr>)"
      by (simp add: packed_inv_def)
    then have "packed_inv ps'"
      using that pack_sentences_inv by (simp add: pack_def pack_subsampling_def)
    then show ?thesis
      by (auto simp: packed_inv_def packed_tokens_def in_set_conv_nth)
  qed
  have verbatim: "packed_tokens ps'' = indexes"
    if "pack False smp vlookup indexes sentence_idx ps = Inr ps''"
    using pack_verbatim_Inr [of indexes sentence_idx ps ps''] that
    by (simp add: pack_def packed_tokens_def)
  show ?thesis
    using run packed verbatim by blast
qed

theorem subsampling_excludes_reserved_witness:
  "train_batch (guarded idle_kernel) demo_config [] demo_randint demo_buffers
       demo_reduced_windows [0, 4, 5] [3] True demo_state = Inr (2, demo_state) \<and>
   pack True False [] [0, 4, 5] [3] demo_buffers
     = Inr (demo_buffers
         \<lparr>c_indexes := (replicate MAX_SENTENCE_LEN 0)[0 := 4, 1 := 5],
          c_sentence_idx := (replicate (MAX_SENTENCE_LEN + 1) 0)[0 := 2],
          effective_words := 2, effective_sentences := 1\<rparr>) \<and>
   packed_tokens (demo_buffers
         \<lparr>c_indexes := (replicate MAX_SENTENCE_LEN 0)[0 := 4, 1 := 5],
          c_sentence_idx := (replicate (MAX_SENTENCE_LEN + 1) 0)[0 := 2],
          effective_words := 2, effective_sentences := 1\<rparr>) = [4, 5]"
proof -
  let ?ps' = "demo_buffers
         \<lparr>c_indexes := (replicate MAX_SENTENCE_LEN 0)[0 := 4, 1 := 5],
          c_sentence_idx := (replicate (MAX_SENTENCE_LEN + 1) 0)[0 := 2],
          effective_words := 2, effective_sentences := 1\<rparr>"
  have idle: "train_batch idle_kernel demo_config [] demo_randint demo_buffers
       demo_reduced_windows [0, 4, 5] [3] True demo_state = Inr (2, demo_state)"
    by (simp add: driver_defs demo_defs idle_kernel_def rd_def wr_def Let_def
        range_int_step range_int_empty replicate_2)
  have packed: "pack True False [] [0, 4, 5] [3] demo_buffers = Inr ?ps'"
    by (simp add: driver_defs demo_defs wr_def Let_def)
  have prefix: "packed_tokens ?ps' = [4, 5]"
    by (simp add: packed_tokens_def MAX_SENTENCE_LEN_def list_eq_iff_nth_eq less_Suc_eq
        numeral_2_eq_2)
  have guarded: "train_batch (guarded idle_kernel) demo_config [] demo_randint demo_buffers
       demo_reduced_windows [0, 4, 5] [3] True demo_state
     = train_batch idle_kernel demo_config [] demo_randint demo_buffers
       demo_reduced_windows [0, 4, 5] [3] True demo_state"
    using subsampling_excludes_reserved
      [of idle_kernel demo_config "[]" demo_randint demo_buffers demo_reduced_windows
        "[0, 4, 5]" "[3]" demo_state]
    by (rule conjunct1)
  show ?thesis
    using guarded idle packed prefix by simp
qed

text \<open>
  Claim C3 as the specification states it fails without subsampling. The sentence
  \<open>[0, 5]\<close> is packed as it is, the reserved token 0 is in the packed prefix, and the
  assertion in front of a kernel fails: a call has token 0 as its target or in its
  window.
\<close>

theorem verbatim_mode_keeps_reserved_counterexample:
  "pack False False [] [0, 5] [2] demo_buffers
     = Inr (demo_buffers
         \<lparr>c_indexes := (replicate MAX_SENTENCE_LEN 0)[0 := 0, 1 := 5],
          c_sentence_idx := (replicate (MAX_SENTENCE_LEN + 1) 0)[0 := 2],
          effective_words := 2, effective_sentences := 1\<rparr>) \<and>
   packed_tokens (demo_buffers
         \<lparr>c_indexes := (replicate MAX_SENTENCE_LEN 0)[0 := 0, 1 := 5],
          c_sentence_idx := (replicate (MAX_SENTENCE_LEN + 1) 0)[0 := 2],
          effective_words := 2, effective_sentences := 1\<rparr>) = [0, 5] \<and>
   train_batch idle_kernel demo_config [] demo_randint demo_buffers
       demo_reduced_windows [0, 5] [2] False demo_state = Inr (2, demo_state) \<and>
   train_batch (guarded idle_kernel) demo_config [] demo_randint demo_buffers
       demo_reduced_windows [0, 5] [2] False demo_state = Inl AssertionError"
proof -
  have packed: "pack False False [] [0, 5] [2] demo_buffers
     = Inr (demo_buffers
         \<lparr>c_indexes := (replicate MAX_SENTENCE_LEN 0)[0 := 0, 1 := 5],
          c_sentence_idx := (replicate (MAX_SENTENCE_LEN + 1) 0)[0 := 2],
          effective_words := 2, effective_sentences := 1\<rparr>)"
    by (simp add: driver_defs demo_defs wr_def Let_def)
  have prefix: "packed_tokens (demo_buffers
         \<lparr>c_indexes := (replicate MAX_SENTENCE_LEN 0)[0 := 0, 1 := 5],
          c_sentence_idx := (replicate (MAX_SENTENCE_LEN + 1) 0)[0 := 2],
          effective_words := 2, effective_sentences := 1\<rparr>) = [0, 5]"
    by (simp add: packed_tokens_def MAX_SENTENCE_LEN_def list_eq_iff_nth_eq less_Suc_eq
        numeral_2_eq_2)
  have idle: "train_batch idle_kernel demo_config [] demo_randint demo_buffers
       demo_reduced_windows [0, 5] [2] False demo_state = Inr (2, demo_state)"
    by (simp add: driver_defs demo_defs idle_kernel_def rd_def wr_def Let_def
        range_int_step range_int_empty replicate_2)
  have guard: "train_batch (guarded idle_kernel) demo_config [] demo_randint demo_buffers
       demo_reduced_windows [0, 5] [2] False demo_state = Inl AssertionError"
    by (simp add: driver_defs demo_defs idle_kernel_def guarded_def reserved_free_def
        rd_def wr_def Let_def range_int_step range_int_empty replicate_2)
  show ?thesis
    using packed prefix idle guard by simp
qed

section \<open>What the two kernels share\<close>

lemma same_frame_refl [simp]: "same_frame st st"
  by (simp add: same_frame_def)

lemma same_frame_trans: "same_frame a b \<Longrightarrow> same_frame b c \<Longrightarrow> same_frame a c"
  by (simp add: same_frame_def)

lemma foldE_invariant:
  assumes "foldE f s xs = Inr s'" and "P s"
    and "\<And>s x s'. x \<in> set xs \<Longrightarrow> P s \<Longrightarrow> f s x = Inr s' \<Longrightarrow> P s'"
  shows "P s'"
  using assms
proof (induction xs arbitrary: s)
  case Nil
  then show ?case by simp
next
  case (Cons x xs)
  from Cons.prems(1) obtain s1 where 1: "f s x = Inr s1" and 2: "foldE f s1 xs = Inr s'"
    by (auto simp: bindE_eq_Inr)
  have p1: "P s1" using Cons.prems(3) [of x s s1] Cons.prems(2) 1 by simp
  have step: "P b" if "y \<in> set xs" and "P a" and "f a y = Inr b" for a y b
    using Cons.prems(3) [of y a b] that by simp
  show ?case
    by (rule Cons.IH [OF 2 p1]) (rule step)
qed

lemma accumulate_work_frame:
  "accumulate_work c gv t fld st = Inr st' \<Longrightarrow> same_frame st st' \<and> syn1neg st' = syn1neg st"
  by (auto simp: accumulate_work_def bindE_eq_Inr same_frame_def)

lemma update_syn1neg_frame:
  "update_syn1neg c gv t fld st = Inr st' \<Longrightarrow> same_frame st st'"
  by (auto simp: update_syn1neg_def bindE_eq_Inr same_frame_def)

lemma neat_field_frame:
  "neat_field c d label t fld st = Inr (st', r) \<Longrightarrow> same_frame st st'"
  by (auto simp: neat_field_def bindE_eq_Inr Let_def same_frame_def split: if_splits
      dest!: accumulate_work_frame)

lemma negsamp_field_frame:
  "negsamp_field c d label t fld (st, g) = Inr (st', g', r) \<Longrightarrow> same_frame st st'"
  by (auto simp: negsamp_field_def bindE_eq_Inr Let_def same_frame_def split: if_splits
      dest!: accumulate_work_frame)

lemma pick_target_frame:
  "pick_target c w d st = Inr (t, st') \<Longrightarrow>
   neu1 st' = neu1 st \<and> syn0_map st' = syn0_map st \<and>
   next_random st' = (if d = 0 then next_random st else prng_advance (next_random st))"
  by (auto simp: pick_target_def bindE_eq_Inr split: if_splits dest!: neg_draw_Inr)

lemma neat_step_frame:
  assumes "neat_step c w (st, g, g2) d = Inr (st', g', g2')"
  shows "neu1 st' = neu1 st \<and> syn0_map st' = syn0_map st \<and>
     next_random st' = (if d = 0 then next_random st else prng_advance (next_random st))"
proof -
  obtain t st1 where pt: "pick_target c w d st = Inr (t, st1)"
    and rest: "(case t of
            None \<Rightarrow> Inr (st1, g, g2)
          | Some (target_index, label) \<Rightarrow>
              bindE (if use_sub c \<noteq> 0
                     then neat_field c d label target_index (bump (use_sub c) (- 1)) st1
                     else Inr (st1, Some g2)) (\<lambda>(st, r2).
                case r2 of
                  None \<Rightarrow> Inr (st, g, g2)
                | Some g2 \<Rightarrow>
                    bindE (if use_head c \<noteq> 0
                           then neat_field c d label target_index
                                  (bump (use_head c) (bump (use_sub c) (- 1))) st
                           else Inr (st, Some g)) (\<lambda>(st, r).
                      case r of
                        None \<Rightarrow> Inr (st, g, g2)
                      | Some g \<Rightarrow>
                          bindE (if use_sub c \<noteq> 0
                                 then update_syn1neg c g2 target_index (bump (use_sub c) (- 1)) st
                                 else Inr st) (\<lambda>st.
                          bindE (if use_head c \<noteq> 0
                                 then update_syn1neg c g target_index
                                        (bump (use_head c) (bump (use_sub c) (- 1))) st
                                 else Inr st) (\<lambda>st.
                            Inr (st, g, g2)))))) = Inr (st', g', g2')"
    using assms by (auto simp: neat_step_def bindE_eq_Inr)
  have "same_frame st1 st'"
  proof (cases t)
    case None
    with rest show ?thesis by simp
  next
    case (Some tl)
    obtain ti label where tl: "tl = (ti, label)" by (cases tl)
    from rest Some tl obtain st2 r2 where
      sub: "(if use_sub c \<noteq> 0
                     then neat_field c d label ti (bump (use_sub c) (- 1)) st1
                     else Inr (st1, Some g2)) = Inr (st2, r2)"
      and rest2: "(case r2 of
                  None \<Rightarrow> Inr (st2, g, g2)
                | Some g2 \<Rightarrow>
                    bindE (if use_head c \<noteq> 0
                           then neat_field c d label ti
                                  (bump (use_head c) (bump (use_sub c) (- 1))) st2
                           else Inr (st2, Some g)) (\<lambda>(st, r).
                      case r of
                        None \<Rightarrow> Inr (st, g, g2)
                      | Some g \<Rightarrow>
                          bindE (if use_sub c \<noteq> 0
                                 then update_syn1neg c g2 ti (bump (use_sub c) (- 1)) st
                                 else Inr st) (\<lambda>st.
                          bindE (if use_head c \<noteq> 0
                                 then update_syn1neg c g ti
                                        (bump (use_head c) (bump (use_sub c) (- 1))) st
                                 else Inr st) (\<lambda>st.
                            Inr (st, g, g2))))) = Inr (st', g', g2')"
      by (auto simp: bindE_eq_Inr)
    have f12: "same_frame st1 st2"
      using sub neat_field_frame by (auto split: if_splits)
    show ?thesis
    proof (cases r2)
      case None
      with rest2 f12 show ?thesis by simp
    next
      case (Some g2n)
      from rest2 Some obtain st3 r where
        head: "(if use_head c \<noteq> 0
                           then neat_field c d label ti
                                  (bump (use_head c) (bump (use_sub c) (- 1))) st2
                           else Inr (st2, Some g)) = Inr (st3, r)"
        and rest3: "(case r of
                        None \<Rightarrow> Inr (st3, g, g2n)
                      | Some g \<Rightarrow>
                          bindE (if use_sub c \<noteq> 0
                                 then update_syn1neg c g2n ti (bump (use_sub c) (- 1)) st3
                                 else Inr st3) (\<lambda>st.
                          bindE (if use_head c \<noteq> 0
                                 then update_syn1neg c g ti
                                        (bump (use_head c) (bump (use_sub c) (- 1))) st
                                 else Inr st) (\<lambda>st.
                            Inr (st, g, g2n)))) = Inr (st', g', g2')"
        by (auto simp: bindE_eq_Inr)
      have f23: "same_frame st2 st3"
        using head neat_field_frame by (auto split: if_splits)
      show ?thesis
      proof (cases r)
        case None
        with rest3 f12 f23 show ?thesis by (auto intro: same_frame_trans)
      next
        case (Some gn)
        from rest3 Some obtain st4 where
          u1: "(if use_sub c \<noteq> 0
                 then update_syn1neg c g2n ti (bump (use_sub c) (- 1)) st3
                 else Inr st3) = Inr st4"
          and u2: "(if use_head c \<noteq> 0
                 then update_syn1neg c gn ti (bump (use_head c) (bump (use_sub c) (- 1))) st4
                 else Inr st4) = Inr st'"
          by (auto simp: bindE_eq_Inr)
        have "same_frame st3 st4" using u1 update_syn1neg_frame by (auto split: if_splits)
        moreover have "same_frame st4 st'" using u2 update_syn1neg_frame by (auto split: if_splits)
        ultimately show ?thesis using f12 f23 by (blast intro: same_frame_trans)
      qed
    qed
  qed
  then show ?thesis
    using pick_target_frame [OF pt] by (simp add: same_frame_def)
qed

lemma negsamp_sub_loop_frame:
  "foldE (\<lambda>(st, g, fld_idx, i) i'.
       bindE (negsamp_field c d label t (fld_idx + 1) (st, g))
         (\<lambda>(st, g, continued). Inr (st, g, fld_idx + 1, i')))
     (st, g, fld, i) xs = Inr (st', g', fld', i'') \<Longrightarrow> same_frame st st'"
proof (induction xs arbitrary: st g fld i)
  case Nil
  then show ?case by simp
next
  case (Cons x xs)
  from Cons.prems obtain st1 g1 r where 1: "negsamp_field c d label t (fld + 1) (st, g) = Inr (st1, g1, r)"
    and 2: "foldE (\<lambda>(st, g, fld_idx, i) i'.
       bindE (negsamp_field c d label t (fld_idx + 1) (st, g))
         (\<lambda>(st, g, continued). Inr (st, g, fld_idx + 1, i')))
     (st1, g1, fld + 1, x) xs = Inr (st', g', fld', i'')"
    by (auto simp: bindE_eq_Inr)
  show ?case
    using negsamp_field_frame [OF 1] Cons.IH [OF 2] by (rule same_frame_trans)
qed

lemma negsamp_step_frame:
  assumes "negsamp_step c w (st, g, i) d = Inr (st', g', i')"
  shows "neu1 st' = neu1 st \<and> syn0_map st' = syn0_map st \<and>
     next_random st' = (if d = 0 then next_random st else prng_advance (next_random st))"
proof -
  obtain t st1 where pt: "pick_target c w d st = Inr (t, st1)"
    and rest: "(case t of
            None \<Rightarrow> Inr (st1, g, i)
          | Some (target_index, label) \<Rightarrow>
              bindE (if use_sub c \<noteq> 0 then
                       foldE (\<lambda>(st, g, fld_idx, i) i'.
                           bindE (negsamp_field c d label target_index (fld_idx + 1) (st, g))
                             (\<lambda>(st, g, continued). Inr (st, g, fld_idx + 1, i')))
                         (st1, g, - 1, i) (range_int 0 (use_sub c))
                     else Inr (st1, g, - 1, i)) (\<lambda>(st, g, fld_idx, i).
              bindE (if use_head c \<noteq> 0
                     then negsamp_field c d label target_index (fld_idx + 1) (st, g)
                     else Inr (st, g, False)) (\<lambda>(st, g, continued).
                if continued then Inr (st, g, i)
                else
                  bindE (if use_sub c \<noteq> 0 then
                           bindE (rd A_g g (bump (use_sub c) (- 1))) (\<lambda>gv.
                             update_syn1neg c gv target_index (bump (use_sub c) (- 1)) st)
                         else Inr st) (\<lambda>st.
                  bindE (if use_head c \<noteq> 0 then
                           bindE (rd A_g g (bump (use_head c) (bump (use_sub c) (- 1)))) (\<lambda>gv.
                             update_syn1neg c gv target_index
                               (bump (use_head c) (bump (use_sub c) (- 1))) st)
                         else Inr st) (\<lambda>st.
                    Inr (st, g, i)))))) = Inr (st', g', i')"
    using assms by (auto simp: negsamp_step_def bindE_eq_Inr)
  have "same_frame st1 st'"
  proof (cases t)
    case None
    with rest show ?thesis by simp
  next
    case (Some tl)
    obtain ti label where tl: "tl = (ti, label)" by (cases tl)
    from rest Some tl obtain st2 g2 fld2 i2 where
      sub: "(if use_sub c \<noteq> 0 then
                       foldE (\<lambda>(st, g, fld_idx, i) i'.
                           bindE (negsamp_field c d label ti (fld_idx + 1) (st, g))
                             (\<lambda>(st, g, continued). Inr (st, g, fld_idx + 1, i')))
                         (st1, g, - 1, i) (range_int 0 (use_sub c))
                     else Inr (st1, g, - 1, i)) = Inr (st2, g2, fld2, i2)"
      and rest2: "bindE (if use_head c \<noteq> 0
                     then negsamp_field c d label ti (fld2 + 1) (st2, g2)
                     else Inr (st2, g2, False)) (\<lambda>(st, g, continued).
                if continued then Inr (st, g, i2)
                else
                  bindE (if use_sub c \<noteq> 0 then
                           bindE (rd A_g g (bump (use_sub c) (- 1))) (\<lambda>gv.
                             update_syn1neg c gv ti (bump (use_sub c) (- 1)) st)
                         else Inr st) (\<lambda>st.
                  bindE (if use_head c \<noteq> 0 then
                           bindE (rd A_g g (bump (use_head c) (bump (use_sub c) (- 1)))) (\<lambda>gv.
                             update_syn1neg c gv ti
                               (bump (use_head c) (bump (use_sub c) (- 1))) st)
                         else Inr st) (\<lambda>st.
                    Inr (st, g, i2)))) = Inr (st', g', i')"
      by (auto simp: bindE_eq_Inr)
    have f12: "same_frame st1 st2"
      using sub negsamp_sub_loop_frame by (auto split: if_splits)
    from rest2 obtain st3 g3 continued where
      head: "(if use_head c \<noteq> 0
                     then negsamp_field c d label ti (fld2 + 1) (st2, g2)
                     else Inr (st2, g2, False)) = Inr (st3, g3, continued)"
      and rest3: "(if continued then Inr (st3, g3, i2)
                else
                  bindE (if use_sub c \<noteq> 0 then
                           bindE (rd A_g g3 (bump (use_sub c) (- 1))) (\<lambda>gv.
                             update_syn1neg c gv ti (bump (use_sub c) (- 1)) st3)
                         else Inr st3) (\<lambda>st.
                  bindE (if use_head c \<noteq> 0 then
                           bindE (rd A_g g3 (bump (use_head c) (bump (use_sub c) (- 1)))) (\<lambda>gv.
                             update_syn1neg c gv ti
                               (bump (use_head c) (bump (use_sub c) (- 1))) st)
                         else Inr st) (\<lambda>st.
                    Inr (st, g3, i2)))) = Inr (st', g', i')"
      by (auto simp: bindE_eq_Inr)
    have f23: "same_frame st2 st3"
      using head negsamp_field_frame by (auto split: if_splits)
    show ?thesis
    proof (cases continued)
      case True
      with rest3 f12 f23 show ?thesis by (auto intro: same_frame_trans)
    next
      case False
      with rest3 obtain st4 where
        u1: "(if use_sub c \<noteq> 0 then
                 bindE (rd A_g g3 (bump (use_sub c) (- 1))) (\<lambda>gv.
                   update_syn1neg c gv ti (bump (use_sub c) (- 1)) st3)
               else Inr st3) = Inr st4"
        and u2: "(if use_head c \<noteq> 0 then
                 bindE (rd A_g g3 (bump (use_head c) (bump (use_sub c) (- 1)))) (\<lambda>gv.
                   update_syn1neg c gv ti (bump (use_head c) (bump (use_sub c) (- 1))) st4)
               else Inr st4) = Inr st'"
        by (auto simp: bindE_eq_Inr)
      have "same_frame st3 st4"
        using u1 update_syn1neg_frame by (auto simp: bindE_eq_Inr split: if_splits)
      moreover have "same_frame st4 st'"
        using u2 update_syn1neg_frame by (auto simp: bindE_eq_Inr split: if_splits)
      ultimately show ?thesis using f12 f23 by (blast intro: same_frame_trans)
    qed
  qed
  then show ?thesis
    using pick_target_frame [OF pt] by (simp add: same_frame_def)
qed

lemma neat_loop_frame:
  "foldE (neat_step c w) (st, g, g2) ds = Inr (st', g', g2') \<Longrightarrow>
   neu1 st' = neu1 st \<and> syn0_map st' = syn0_map st \<and>
   next_random st' = (prng_advance ^^ length (filter (\<lambda>d. d \<noteq> 0) ds)) (next_random st)"
proof (induction ds arbitrary: st g g2)
  case Nil
  then show ?case by simp
next
  case (Cons d ds)
  from Cons.prems obtain st1 g1 g21 where 1: "neat_step c w (st, g, g2) d = Inr (st1, g1, g21)"
    and 2: "foldE (neat_step c w) (st1, g1, g21) ds = Inr (st', g', g2')"
    by (auto simp: bindE_eq_Inr)
  show ?case
    using neat_step_frame [OF 1] Cons.IH [OF 2] by (simp add: funpow_swap1)
qed

lemma negsamp_loop_frame:
  "foldE (negsamp_step c w) (st, g, i) ds = Inr (st', g', i') \<Longrightarrow>
   neu1 st' = neu1 st \<and> syn0_map st' = syn0_map st \<and>
   next_random st' = (prng_advance ^^ length (filter (\<lambda>d. d \<noteq> 0) ds)) (next_random st)"
proof (induction ds arbitrary: st g i)
  case Nil
  then show ?case by simp
next
  case (Cons d ds)
  from Cons.prems obtain st1 g1 i1 where 1: "negsamp_step c w (st, g, i) d = Inr (st1, g1, i1)"
    and 2: "foldE (negsamp_step c w) (st1, g1, i1) ds = Inr (st', g', i')"
    by (auto simp: bindE_eq_Inr)
  show ?case
    using negsamp_step_frame [OF 1] Cons.IH [OF 2] by (simp add: funpow_swap1)
qed

lemma scale_work_frame:
  "scale_work c ic st = Inr st' \<Longrightarrow>
   neu1 st' = neu1 st \<and> next_random st' = next_random st \<and> syn1neg st' = syn1neg st \<and>
   running_training_loss st' = running_training_loss st \<and> syn0_map st' = syn0_map st"
  by (auto simp: scale_work_def bindE_eq_Inr split: if_splits)

lemma sub_scatter_frame:
  "sub_scatter c indexes i j k fld st = Inr st' \<Longrightarrow>
   neu1 st' = neu1 st \<and> next_random st' = next_random st \<and> syn1neg st' = syn1neg st \<and>
   running_training_loss st' = running_training_loss st \<and> work st' = work st"
  by (auto simp: sub_scatter_def bindE_eq_Inr)

lemma head_scatter_frame:
  "head_scatter c indexes i j k fld st = Inr st' \<Longrightarrow>
   neu1 st' = neu1 st \<and> next_random st' = next_random st \<and> syn1neg st' = syn1neg st \<and>
   running_training_loss st' = running_training_loss st \<and> work st' = work st"
  by (auto simp: head_scatter_def bindE_eq_Inr)

lemma epilogue_frame:
  assumes "epilogue c indexes i j k ic st = Inr st'"
  shows "neu1 st' = neu1 st \<and> next_random st' = next_random st \<and> syn1neg st' = syn1neg st \<and>
     running_training_loss st' = running_training_loss st"
proof -
  from assms obtain st1 st2 where 1: "scale_work c ic st = Inr st1"
    and 2: "(if use_sub c \<noteq> 0
            then sub_scatter c indexes i j k (bump (use_sub c) (- 1)) st1
            else Inr st1) = Inr st2"
    and 3: "(if use_head c \<noteq> 0
            then head_scatter c indexes i j k (bump (use_head c) (bump (use_sub c) (- 1))) st2
            else Inr st2) = Inr st'"
    by (auto simp: epilogue_def bindE_eq_Inr)
  have "neu1 st2 = neu1 st1 \<and> next_random st2 = next_random st1 \<and> syn1neg st2 = syn1neg st1 \<and>
     running_training_loss st2 = running_training_loss st1"
    using 2 sub_scatter_frame by (auto split: if_splits)
  moreover have "neu1 st' = neu1 st2 \<and> next_random st' = next_random st2 \<and>
     syn1neg st' = syn1neg st2 \<and> running_training_loss st' = running_training_loss st2"
    using 3 head_scatter_frame by (auto split: if_splits)
  ultimately show ?thesis
    using scale_work_frame [OF 1] by simp
qed

lemma prologue_frame:
  "prologue c indexes i j k st = Inr (w, ic, st') \<Longrightarrow>
   next_random st' = next_random st \<and> syn1neg st' = syn1neg st \<and>
   running_training_loss st' = running_training_loss st \<and> syn0_map st' = syn0_map st"
  by (auto simp: prologue_def sub_project_def head_project_def bindE_eq_Inr Let_def
      split: if_splits)

lemma count_draws: "length (filter (\<lambda>d. d \<noteq> 0) (range_int 0 (n + 1))) = nat n"
proof -
  have "filter (\<lambda>d. d \<noteq> 0) (range_int 0 (n + 1)) = [1..n]"
  proof (cases "0 \<le> n")
    case True
    then have "[0..n] = 0 # [1..n]" by (simp add: upto_rec1)
    moreover have "filter (\<lambda>d. d \<noteq> 0) [1..n] = [1..n]"
      by (rule filter_True) auto
    ultimately show ?thesis by (simp add: range_int_def)
  next
    case False
    then show ?thesis by (simp add: range_int_def)
  qed
  then show ?thesis by simp
qed

text \<open>
  What the two variants do share, the prologue and the draws: on the same input, whatever
  their locals hold on entry, two calls that both return leave the same PRNG state, the
  input state advanced once for each of the \<open>negative\<close> draws, and the same projections
  in \<^verbatim>\<open>neu1\<close>.
\<close>

lemma variants_same_prng_state:
  assumes "fieldembed_token_neg_0X1_neat g0 g20 c indexes i j k st = Inr s1"
    and "fieldembed_negsamp garr c indexes i j k st = Inr s2"
  shows "next_random s1 = next_random s2 \<and>
     next_random s1 = (prng_advance ^^ nat (negative c)) (next_random st) \<and>
     neu1 s1 = neu1 s2"
proof -
  from assms(1) obtain w ic st1 a g g2 where
    p1: "prologue c indexes i j k st = Inr (w, ic, st1)"
    and l1: "foldE (neat_step c w) (st1, g0, g20) (range_int 0 (negative c + 1)) = Inr (a, g, g2)"
    and e1: "epilogue c indexes i j k ic a = Inr s1"
    by (auto simp: fieldembed_token_neg_0X1_neat_def bindE_eq_Inr)
  from assms(2) p1 obtain b ga i' where
    l2: "foldE (negsamp_step c w) (st1, garr, i) (range_int 0 (negative c + 1)) = Inr (b, ga, i')"
    and e2: "epilogue c indexes i' j k ic b = Inr s2"
    by (auto simp: fieldembed_negsamp_def bindE_eq_Inr)
  have st1: "next_random st1 = next_random st"
    using prologue_frame [OF p1] by simp
  show ?thesis
    using neat_loop_frame [OF l1] negsamp_loop_frame [OF l2] epilogue_frame [OF e1]
      epilogue_frame [OF e2] st1
    by (simp add: count_draws)
qed

lemma variants_same_prng_state_example:
  "\<exists>s1 s2.
     fieldembed_token_neg_0X1_neat 0 0 (demo_config\<lparr>negative := 1\<rparr>) [4, 5] 1 0 1 demo_state
       = Inr s1 \<and>
     fieldembed_negsamp [0, 0] (demo_config\<lparr>negative := 1\<rparr>) [4, 5] 1 0 1 demo_state = Inr s2 \<and>
     next_random s1 = next_random s2 \<and> next_random s1 = prng_advance 1 \<and> neu1 s1 = neu1 s2"
proof -
  have neat: "fieldembed_token_neg_0X1_neat 0 0 (demo_config\<lparr>negative := 1\<rparr>) [4, 5] 1 0 1
      demo_state
    = Inr (demo_state
        \<lparr>syn0_map := (syn0_map demo_state)
            (0 := [[2 - EXP_TABLE ! 581], [0]],
             1 := [[0], [0], [0], [0], [2 - EXP_TABLE ! 581], [0]]),
         syn1neg := [[- (2 * EXP_TABLE ! 498)], [0], [0], [0], [0], [3 - 2 * EXP_TABLE ! 581]],
         neu1 := [[1], [1]],
         work := [[1 - EXP_TABLE ! 581], [1 - EXP_TABLE ! 581]],
         next_random := 25214903928\<rparr>)"
    by (simp add: demo_defs kernel_defs neg_draw_def prng_advance_def drop_bit_eq_div)
      (simp add: fun_eq_iff)?
  have negsamp: "fieldembed_negsamp [0, 0] (demo_config\<lparr>negative := 1\<rparr>) [4, 5] 1 0 1
      demo_state
    = Inr (demo_state
        \<lparr>syn1neg := [[- (2 * EXP_TABLE ! 498)], [0], [0], [0], [0], [3 - 2 * EXP_TABLE ! 581]],
         neu1 := [[1], [1]],
         work := [[1 - EXP_TABLE ! 581], [1 - EXP_TABLE ! 581]],
         next_random := 25214903928\<rparr>)"
    by (simp add: demo_defs kernel_defs neg_draw_def prng_advance_def drop_bit_eq_div)
      (simp add: fun_eq_iff)?
  show ?thesis
    using variants_same_prng_state [OF neat negsamp] neat negsamp
    by (simp add: demo_config_def demo_state_def)
qed

section \<open>The rows the scatter writes\<close>

lemma wr_frame:
  "wr a xs idx v = Inr xs' \<Longrightarrow> r \<noteq> nat idx \<Longrightarrow> xs' ! r = xs ! r"
  by (auto simp: wr_def split: if_splits)

lemma rd_value: "rd a xs idx = Inr v \<Longrightarrow> v = xs ! nat idx"
  by (auto simp: rd_def split: if_splits)

lemma sub_slice_value:
  "sub_slice c fld lw = Inr (li, gs, ge) \<Longrightarrow>
   gs = int_of_uint32 (EndIdx_map c fld ! nat (lw - 1)) \<and>
   ge = int_of_uint32 (EndIdx_map c fld ! nat lw)"
  by (auto simp: sub_slice_def bindE_eq_Inr dest!: rd_value)

lemma sub_scatter_token_frame:
  assumes run: "sub_scatter_token c indexes fld wk syn0 m = Inr syn0'"
    and r: "r \<notin> set (sub_units c fld (indexes ! nat m))"
  shows "syn0' ! r = syn0 ! r"
proof -
  from run obtain w li gs ge where w: "rd A_indexes indexes m = Inr w"
    and sl: "sub_slice c fld (int_of_uint32 w) = Inr (li, gs, ge)"
    and loop: "foldE (\<lambda>syn0 n.
           bindE (rd A_LookUp (LookUp_map c fld) n) (\<lambda>grain_index.
           bindE (rd A_work wk fld) (\<lambda>x.
           bindE (rd A_syn0 syn0 (int grain_index)) (\<lambda>row.
             wr A_syn0 syn0 (int grain_index) (our_saxpy (size' c) li x row)))))
         syn0 (range_int gs ge) = Inr syn0'"
    by (auto simp: sub_scatter_token_def bindE_eq_Inr)
  have weq: "w = indexes ! nat m" using rd_value [OF w] .
  have units: "sub_units c fld (indexes ! nat m)
      = map (\<lambda>n. LookUp_map c fld ! nat n) (range_int gs ge)"
    using sub_slice_value [OF sl] by (simp add: sub_units_def weq)
  show ?thesis
  proof (rule foldE_invariant [OF loop, where P = "\<lambda>s. s ! r = syn0 ! r"])
    show "syn0 ! r = syn0 ! r" by simp
  next
    fix s n s'
    assume n: "n \<in> set (range_int gs ge)" and p: "s ! r = syn0 ! r"
      and step: "bindE (rd A_LookUp (LookUp_map c fld) n) (\<lambda>grain_index.
           bindE (rd A_work wk fld) (\<lambda>x.
           bindE (rd A_syn0 s (int grain_index)) (\<lambda>row.
             wr A_syn0 s (int grain_index) (our_saxpy (size' c) li x row)))) = Inr s'"
    from step obtain grain x row where g: "rd A_LookUp (LookUp_map c fld) n = Inr grain"
      and wr: "wr A_syn0 s (int grain) (our_saxpy (size' c) li x row) = Inr s'"
      by (auto simp: bindE_eq_Inr)
    have "grain \<in> set (sub_units c fld (indexes ! nat m))"
      using rd_value [OF g] n by (auto simp: units)
    with r have "r \<noteq> nat (int grain)" by auto
    from wr_frame [OF wr this] p show "s' ! r = syn0 ! r" by simp
  qed
qed

lemma sub_scatter_frame_rows:
  assumes run: "sub_scatter c indexes i j k fld st = Inr st'"
    and r: "r \<notin> (\<Union>w \<in> set (context_tokens indexes i j k). set (sub_units c fld w))"
  shows "syn0_map st' fld ! r = syn0_map st fld ! r \<and>
     (\<forall>f. f \<noteq> fld \<longrightarrow> syn0_map st' f = syn0_map st f)"
proof -
  from run obtain syn0' where loop: "foldE (\<lambda>syn0 m. if m = i then Inr syn0
                             else sub_scatter_token c indexes fld (work st) syn0 m)
              (syn0_map st fld) (range_int j k) = Inr syn0'"
    and st': "st' = st\<lparr>syn0_map := (syn0_map st)(fld := syn0')\<rparr>"
    by (auto simp: sub_scatter_def bindE_eq_Inr)
  have "syn0' ! r = syn0_map st fld ! r"
  proof (rule foldE_invariant [OF loop, where P = "\<lambda>s. s ! r = syn0_map st fld ! r"])
    show "syn0_map st fld ! r = syn0_map st fld ! r" by simp
  next
    fix s m s'
    assume m: "m \<in> set (range_int j k)" and p: "s ! r = syn0_map st fld ! r"
      and step: "(if m = i then Inr s else sub_scatter_token c indexes fld (work st) s m) = Inr s'"
    show "s' ! r = syn0_map st fld ! r"
    proof (cases "m = i")
      case True
      with step p show ?thesis by simp
    next
      case False
      then have "indexes ! nat m \<in> set (context_tokens indexes i j k)"
        using m by (auto simp: context_tokens_def context_positions_def)
      with r have "r \<notin> set (sub_units c fld (indexes ! nat m))" by blast
      with step False p sub_scatter_token_frame show ?thesis by auto
    qed
  qed
  then show ?thesis by (simp add: st')
qed

lemma head_scatter_frame_rows:
  assumes run: "head_scatter c indexes i j k fld st = Inr st'"
    and r: "r \<notin> set (context_tokens indexes i j k)"
  shows "syn0_map st' fld ! r = syn0_map st fld ! r \<and>
     (\<forall>f. f \<noteq> fld \<longrightarrow> syn0_map st' f = syn0_map st f)"
proof -
  from run obtain syn0' where loop: "foldE (\<lambda>syn0 m. if m = i then Inr syn0
                             else
                               bindE (rd A_indexes indexes m) (\<lambda>w.
                               bindE (rd A_word_locks (word_locks c) (int w)) (\<lambda>lock.
                               bindE (rd A_work (work st) fld) (\<lambda>x.
                               bindE (rd A_syn0 syn0 (int w)) (\<lambda>row.
                                 wr A_syn0 syn0 (int w) (our_saxpy (size' c) lock x row))))))
              (syn0_map st fld) (range_int j k) = Inr syn0'"
    and st': "st' = st\<lparr>syn0_map := (syn0_map st)(fld := syn0')\<rparr>"
    by (auto simp: head_scatter_def bindE_eq_Inr)
  have "syn0' ! r = syn0_map st fld ! r"
  proof (rule foldE_invariant [OF loop, where P = "\<lambda>s. s ! r = syn0_map st fld ! r"])
    show "syn0_map st fld ! r = syn0_map st fld ! r" by simp
  next
    fix s m s'
    assume m: "m \<in> set (range_int j k)" and p: "s ! r = syn0_map st fld ! r"
      and step: "(if m = i then Inr s
                             else
                               bindE (rd A_indexes indexes m) (\<lambda>w.
                               bindE (rd A_word_locks (word_locks c) (int w)) (\<lambda>lock.
                               bindE (rd A_work (work st) fld) (\<lambda>x.
                               bindE (rd A_syn0 s (int w)) (\<lambda>row.
                                 wr A_syn0 s (int w) (our_saxpy (size' c) lock x row)))))) = Inr s'"
    show "s' ! r = syn0_map st fld ! r"
    proof (cases "m = i")
      case True
      with step p show ?thesis by simp
    next
      case False
      with step obtain w lock x row where w: "rd A_indexes indexes m = Inr w"
        and wr: "wr A_syn0 s (int w) (our_saxpy (size' c) lock x row) = Inr s'"
        by (auto simp: bindE_eq_Inr)
      have "w \<in> set (context_tokens indexes i j k)"
        using rd_value [OF w] m False by (auto simp: context_tokens_def context_positions_def)
      with r have "r \<noteq> nat (int w)" by auto
      from wr_frame [OF wr this] p show ?thesis by simp
    qed
  qed
  then show ?thesis by (simp add: st')
qed

lemma epilogue_frame_rows:
  assumes run: "epilogue c indexes i j k ic st = Inr st'"
    and r: "r \<notin> touched_rows c indexes i j k"
  shows "syn0_map st' fld ! r = syn0_map st fld ! r"
proof -
  from run obtain st1 st2 where 1: "scale_work c ic st = Inr st1"
    and 2: "(if use_sub c \<noteq> 0
            then sub_scatter c indexes i j k (bump (use_sub c) (- 1)) st1
            else Inr st1) = Inr st2"
    and 3: "(if use_head c \<noteq> 0
            then head_scatter c indexes i j k (bump (use_head c) (bump (use_sub c) (- 1))) st2
            else Inr st2) = Inr st'"
    by (auto simp: epilogue_def bindE_eq_Inr)
  have a: "syn0_map st1 = syn0_map st"
    using scale_work_frame [OF 1] by simp
  have b: "syn0_map st2 fld ! r = syn0_map st1 fld ! r"
  proof (cases "use_sub c \<noteq> 0")
    case True
    with 2 have s: "sub_scatter c indexes i j k (bump (use_sub c) (- 1)) st1 = Inr st2" by simp
    have "r \<notin> (\<Union>w \<in> set (context_tokens indexes i j k). set (sub_units c (bump (use_sub c) (- 1)) w))"
      using r by (simp add: touched_rows_def)
    from sub_scatter_frame_rows [OF s this] show ?thesis
      by (cases "fld = bump (use_sub c) (- 1)") simp_all
  next
    case False
    with 2 show ?thesis by simp
  qed
  have c: "syn0_map st' fld ! r = syn0_map st2 fld ! r"
  proof (cases "use_head c \<noteq> 0")
    case True
    with 3 have s: "head_scatter c indexes i j k (bump (use_head c) (bump (use_sub c) (- 1))) st2
        = Inr st'" by simp
    have "r \<notin> set (context_tokens indexes i j k)"
      using r by (simp add: touched_rows_def)
    from head_scatter_frame_rows [OF s this] show ?thesis
      by (cases "fld = bump (use_head c) (bump (use_sub c) (- 1))") simp_all
  next
    case False
    with 3 show ?thesis by simp
  qed
  show ?thesis using a b c by simp
qed

text \<open>
  The frame of the input matrices. In \<^verbatim>\<open>fieldembed_token_neg_0X1_neat\<close> every row of
  every input matrix that is neither a context token nor a sub-unit of one is left as it
  was. \<^verbatim>\<open>fieldembed_negsamp\<close> runs the same scatter, with the value its variable \<open>i\<close> has
  by then.
\<close>

lemma neat_leaves_other_rows:
  assumes run: "fieldembed_token_neg_0X1_neat g0 g20 c indexes i j k st = Inr st'"
    and r: "r \<notin> touched_rows c indexes i j k"
  shows "syn0_map st' fld ! r = syn0_map st fld ! r"
proof -
  from run obtain w ic st1 a g g2 where
    p1: "prologue c indexes i j k st = Inr (w, ic, st1)"
    and l1: "foldE (neat_step c w) (st1, g0, g20) (range_int 0 (negative c + 1)) = Inr (a, g, g2)"
    and e1: "epilogue c indexes i j k ic a = Inr st'"
    by (auto simp: fieldembed_token_neg_0X1_neat_def bindE_eq_Inr)
  have "syn0_map a = syn0_map st"
    using prologue_frame [OF p1] neat_loop_frame [OF l1] by simp
  then show ?thesis
    using epilogue_frame_rows [OF e1 r] by simp
qed

end
